theory Spec2Isabelle
  imports Complex_Main "HOL-Library.Word"
begin

section \<open>Exceptions\<close>

text \<open>
  The dispatcher tells exceptions apart by the \<^verbatim>\<open>except\<close> clause that catches them
  (an \<^verbatim>\<open>isinstance\<close> test, clauses tried in source order), the error handler by
  \<^verbatim>\<open>type(exception).__name__\<close>. An exception is therefore a pair of both.
  \<open>NonException\<close> stands for the classes that derive from \<^verbatim>\<open>BaseException\<close> but not
  from \<^verbatim>\<open>Exception\<close> (\<^verbatim>\<open>KeyboardInterrupt\<close>, \<^verbatim>\<open>SystemExit\<close>,
  \<^verbatim>\<open>asyncio.CancelledError\<close>): no \<^verbatim>\<open>except Exception\<close> clause catches them.
\<close>

datatype exc_class =
    FileReferenceExpiredError
  | TimeoutError
  | BadRequestError
  | OtherException
  | NonException

record py_exception =
  exc_class :: exc_class
  exc_type_name :: string

section \<open>Download state (utils/state.py)\<close>

record download_state =
  failed_ids :: "int list"
  downloaded_ids :: "int list"
  total_size_bytes :: int

definition empty_state :: download_state where
  "empty_state = \<lparr>failed_ids = [], downloaded_ids = [], total_size_bytes = 0\<rparr>"

definition mark_downloaded :: "download_state \<Rightarrow> int \<Rightarrow> int \<Rightarrow> download_state" where
  "mark_downloaded st message_id file_size =
     (if message_id \<notin> set (downloaded_ids st)
      then st\<lparr>downloaded_ids := downloaded_ids st @ [message_id],
              total_size_bytes := total_size_bytes st + file_size\<rparr>
      else st)"

definition mark_failed :: "download_state \<Rightarrow> int \<Rightarrow> download_state" where
  "mark_failed st message_id =
     (if message_id \<notin> set (failed_ids st)
      then st\<lparr>failed_ids := failed_ids st @ [message_id]\<rparr>
      else st)"

text \<open>
  \<^verbatim>\<open>list(set(xs) - set(ys))\<close>: the elements of \<open>xs\<close> outside \<open>ys\<close>, once each. Python
  leaves the order of a set's elements open; the model lists them by first occurrence, and
  nothing below depends on that order.
\<close>

definition py_set_difference :: "int list \<Rightarrow> int list \<Rightarrow> int list" where
  "py_set_difference xs ys = remdups (filter (\<lambda>x. x \<notin> set ys) xs)"

definition get_retry_ids :: "download_state \<Rightarrow> int list \<Rightarrow> int list" where
  "get_retry_ids st existing_retry_ids =
     py_set_difference existing_retry_ids (downloaded_ids st) @ failed_ids st"

text \<open>A call on the state object, and a sequence of such calls run in order.\<close>

datatype state_op = MarkDownloaded int int | MarkFailed int

fun apply_state_op :: "download_state \<Rightarrow> state_op \<Rightarrow> download_state" where
  "apply_state_op st (MarkDownloaded i n) = mark_downloaded st i n"
| "apply_state_op st (MarkFailed i) = mark_failed st i"

definition run_state_ops :: "state_op list \<Rightarrow> download_state" where
  "run_state_ops ops = foldl apply_state_op empty_state ops"

fun marked_downloaded :: "state_op list \<Rightarrow> int set" where
  "marked_downloaded [] = {}"
| "marked_downloaded (MarkDownloaded i n # ops) = insert i (marked_downloaded ops)"
| "marked_downloaded (MarkFailed i # ops) = marked_downloaded ops"

fun marked_failed :: "state_op list \<Rightarrow> int set" where
  "marked_failed [] = {}"
| "marked_failed (MarkDownloaded i n # ops) = marked_failed ops"
| "marked_failed (MarkFailed i # ops) = insert i (marked_failed ops)"

section \<open>Format policy check (main.py, \<^verbatim>\<open>_can_download\<close>)\<close>

text \<open>
  A value of the \<^verbatim>\<open>file_formats\<close> dictionary is a list, or (the configuration is
  user-written YAML) something that is not a list. An entry of the list is a string, a
  null, or some other YAML value, which equals neither a string nor \<^verbatim>\<open>None\<close>. The
  detected format is a string or \<^verbatim>\<open>None\<close>, and \<^verbatim>\<open>file_format not in allowed_formats\<close>
  compares it with the entries.
\<close>

datatype yaml_value = Str string | Null | Other

datatype fmt_value = FmtList "yaml_value list" | NotAList

type_synonym format_policy = "string \<rightharpoonup> fmt_value"

definition py_value :: "string option \<Rightarrow> yaml_value" where
  "py_value file_format = (case file_format of None \<Rightarrow> Null | Some f \<Rightarrow> Str f)"

definition can_download :: "string \<Rightarrow> format_policy \<Rightarrow> string option \<Rightarrow> bool" where
  "can_download type file_formats file_format =
     (if type \<in> set [''audio'', ''document'', ''video''] then
        (case file_formats type of
           None \<Rightarrow> False
         | Some NotAList \<Rightarrow> False
         | Some (FmtList allowed_formats) \<Rightarrow>
             (case allowed_formats of
                [] \<Rightarrow> False
              | first # _ \<Rightarrow>
                  \<not> (py_value file_format \<notin> set allowed_formats \<and> first \<noteq> Str ''all'')))
      else True)"

section \<open>Session summary (utils/models.py)\<close>

record download_summary =
  total_messages :: int
  successful_downloads :: int
  failed_downloads :: int
  skipped_messages :: int
  summary_size_bytes :: int
  duration_seconds :: real

text \<open>
  Python's \<^verbatim>\<open>a / b\<close> on integers raises \<^verbatim>\<open>ZeroDivisionError\<close> when \<open>b\<close> is zero, and
  \<^verbatim>\<open>OverflowError\<close> when the quotient is too large for a float, that is when its
  magnitude reaches \<open>2 ^ 1024 - 2 ^ 970\<close>, the least value that rounds beyond the largest
  float. Below that bound the model gives the exact quotient: the rounding of the float
  result is not modelled, and neither is the float product, which raises nothing.
\<close>

definition ZeroDivisionError :: py_exception where
  "ZeroDivisionError = \<lparr>exc_class = OtherException, exc_type_name = ''ZeroDivisionError''\<rparr>"

definition OverflowError :: py_exception where
  "OverflowError = \<lparr>exc_class = OtherException, exc_type_name = ''OverflowError''\<rparr>"

definition FLOAT_OVERFLOW :: real where
  "FLOAT_OVERFLOW = 2 ^ 1024 - 2 ^ 970"

definition py_truediv :: "int \<Rightarrow> int \<Rightarrow> py_exception + real" where
  "py_truediv a b =
     (if b = 0 then Inl ZeroDivisionError
      else if FLOAT_OVERFLOW \<le> \<bar>real_of_int a / real_of_int b\<bar> then Inl OverflowError
      else Inr (real_of_int a / real_of_int b))"

definition get_success_rate :: "download_summary \<Rightarrow> py_exception + real" where
  "get_success_rate s =
     (let total_attempts = successful_downloads s + failed_downloads s in
      if total_attempts = 0 then Inr 0
      else (case py_truediv (successful_downloads s) total_attempts of
              Inl e \<Rightarrow> Inl e
            | Inr q \<Rightarrow> Inr (q * 100)))"

section \<open>Error handler (utils/error_handler.py)\<close>

datatype UserFriendlyError =
    FILE_REFERENCE_EXPIRED
  | TIMEOUT
  | BAD_REQUEST
  | UNAUTHORIZED
  | FILE_TOO_LARGE
  | NETWORK_ERROR
  | DIRECTORY_NOT_FOUND
  | CONFIG_INVALID
  | UNKNOWN_ERROR

fun get_severity :: "UserFriendlyError \<Rightarrow> string" where
  "get_severity FILE_REFERENCE_EXPIRED = ''WARNING''"
| "get_severity TIMEOUT = ''WARNING''"
| "get_severity BAD_REQUEST = ''ERROR''"
| "get_severity UNAUTHORIZED = ''ERROR''"
| "get_severity FILE_TOO_LARGE = ''ERROR''"
| "get_severity NETWORK_ERROR = ''WARNING''"
| "get_severity DIRECTORY_NOT_FOUND = ''ERROR''"
| "get_severity CONFIG_INVALID = ''ERROR''"
| "get_severity UNKNOWN_ERROR = ''ERROR''"

definition from_exception :: "py_exception \<Rightarrow> UserFriendlyError" where
  "from_exception exception =
     (let exception_type = exc_type_name exception in
      if exception_type = ''FileReferenceExpiredError'' then FILE_REFERENCE_EXPIRED
      else if exception_type = ''TimeoutError'' then TIMEOUT
      else if exception_type = ''BadRequestError'' then BAD_REQUEST
      else if exception_type = ''AuthorizationError'' then UNAUTHORIZED
      else if exception_type = ''FloodWaitError'' then TIMEOUT
      else if exception_type = ''ConnectionError'' then NETWORK_ERROR
      else if exception_type = ''OSError'' then DIRECTORY_NOT_FOUND
      else if exception_type = ''ValueError'' then CONFIG_INVALID
      else UNKNOWN_ERROR)"

record error_handler =
  error_count :: int
  warnings_count :: int

definition new_error_handler :: error_handler where
  "new_error_handler = \<lparr>error_count = 0, warnings_count = 0\<rparr>"

text \<open>
  \<^verbatim>\<open>handle_error(exception, message_id, logger, critical)\<close>. The parameter \<open>logger\<close> says
  whether a logger was passed (a logger object is truthy, the default \<^verbatim>\<open>None\<close> is not).
  The message id only goes into the logged text, which is not modelled.
\<close>

definition handle_error ::
  "error_handler \<Rightarrow> py_exception \<Rightarrow> int option \<Rightarrow> bool \<Rightarrow> bool \<Rightarrow> error_handler" where
  "handle_error h exception message_id logger critical =
     (let user_error = from_exception exception in
      if logger then
        (if critical \<or> get_severity user_error = ''ERROR''
         then h\<lparr>error_count := error_count h + 1\<rparr>
         else h\<lparr>warnings_count := warnings_count h + 1\<rparr>)
      else h)"

text \<open>Decimal rendering of an integer, as \<^verbatim>\<open>str\<close> and f-strings do.\<close>

function str_nat :: "nat \<Rightarrow> string" where
  "str_nat n =
     (if n < 10 then [char_of (48 + n)]
      else str_nat (n div 10) @ [char_of (48 + n mod 10)])"
  by pat_completeness auto
termination
  by (relation "measure id") auto

declare str_nat.simps [simp del]

definition str_int :: "int \<Rightarrow> string" where
  "str_int i = (if i < 0 then CHR ''-'' # str_nat (nat (- i)) else str_nat (nat i))"

fun py_join :: "string \<Rightarrow> string list \<Rightarrow> string" where
  "py_join sep [] = []"
| "py_join sep [p] = p"
| "py_join sep (p # q # ps) = p @ sep @ py_join sep (q # ps)"

text \<open>The three pictographs of the summary, as their UTF-8 bytes.\<close>

definition check_mark :: string where
  "check_mark = [CHR 0xE2, CHR 0x9C, CHR 0x85]"

definition cross_mark :: string where
  "cross_mark = [CHR 0xE2, CHR 0x9D, CHR 0x8C]"

definition warning_sign :: string where
  "warning_sign = [CHR 0xE2, CHR 0x9A, CHR 0xA0, CHR 0xEF, CHR 0xB8, CHR 0x8F]"

definition no_errors_sentinel :: string where
  "no_errors_sentinel = check_mark @ '' No errors or warnings''"

definition plural_s :: "int \<Rightarrow> string" where
  "plural_s n = (if n \<noteq> 1 then ''s'' else [])"

definition get_summary :: "error_handler \<Rightarrow> string" where
  "get_summary h =
     (if error_count h = 0 \<and> warnings_count h = 0 then no_errors_sentinel
      else
        py_join '', ''
          ((if error_count h > 0
            then [cross_mark @ '' '' @ str_int (error_count h) @ '' error''
                    @ plural_s (error_count h)]
            else [])
           @ (if warnings_count h > 0
              then [warning_sign @ '' '' @ str_int (warnings_count h) @ '' warning''
                      @ plural_s (warnings_count h)]
              else [])))"

text \<open>A call of \<^verbatim>\<open>handle_error\<close>, and a sequence of calls on a fresh handler.\<close>

record handle_call =
  call_exception :: py_exception
  call_message_id :: "int option"
  call_logger :: bool
  call_critical :: bool

definition apply_handle_call :: "error_handler \<Rightarrow> handle_call \<Rightarrow> error_handler" where
  "apply_handle_call h c =
     handle_error h (call_exception c) (call_message_id c) (call_logger c) (call_critical c)"

definition run_handle_calls :: "handle_call list \<Rightarrow> error_handler" where
  "run_handle_calls cs = foldl apply_handle_call new_error_handler cs"

definition counts_as_error :: "handle_call \<Rightarrow> bool" where
  "counts_as_error c =
     (call_critical c \<or> get_severity (from_exception (call_exception c)) = ''ERROR'')"

section \<open>Messages and media classification (main.py, \<^verbatim>\<open>get_media_type\<close>)\<close>

text \<open>
  A document attribute, as far as the classifier reads it: \<open>attr_voice\<close> is \<open>Some b\<close>
  when the attribute has a field \<^verbatim>\<open>voice\<close> holding the boolean \<open>b\<close>, and \<open>None\<close> when it
  has no such field or the field is not a boolean; likewise \<open>attr_round_message\<close>.
  A media payload is a photo, a document payload, or something else. The document of a
  document payload is an optional field of the client library, and it may be an empty
  document, which has no attribute list: the payload holds the attribute list of its
  document, or \<open>None\<close> in these two cases.
\<close>

record doc_attribute =
  attr_voice :: "bool option"
  attr_round_message :: "bool option"

datatype message_media =
    MessageMediaPhoto
  | MessageMediaDocument "doc_attribute list option"
  | MessageMediaOther

text \<open>
  The media object the dispatcher picks (\<^verbatim>\<open>message.photo\<close>, \<^verbatim>\<open>message.voice\<close>,
  \<^verbatim>\<open>message.video_note\<close>, \<^verbatim>\<open>message.document\<close>), with the two attributes read from
  it: the MIME type and the size, each absent on some objects.
\<close>

record media_object =
  mime_type :: "string option"
  obj_size :: "int option"

record message =
  msg_id :: int
  msg_date :: int
  media :: "message_media option"
  photo :: "media_object option"
  voice :: "media_object option"
  video_note :: "media_object option"
  document :: "media_object option"

fun scan_attributes :: "doc_attribute list \<Rightarrow> string" where
  "scan_attributes [] = ''document''"
| "scan_attributes (attr # attrs) =
     (case attr_voice attr of
        Some v \<Rightarrow> (if v then ''voice'' else ''audio'')
      | None \<Rightarrow>
          (case attr_round_message attr of
             Some r \<Rightarrow> (if r then ''video_note'' else ''video'')
           | None \<Rightarrow> scan_attributes attrs))"

text \<open>
  The classifier reads \<^verbatim>\<open>doc.attributes\<close> without a test, which raises
  \<^verbatim>\<open>AttributeError\<close> when the document is missing or has no attribute list.
\<close>

definition AttributeError :: py_exception where
  "AttributeError = \<lparr>exc_class = OtherException, exc_type_name = ''AttributeError''\<rparr>"

definition get_media_type :: "message \<Rightarrow> py_exception + string option" where
  "get_media_type message =
     (case media message of
        None \<Rightarrow> Inr None
      | Some MessageMediaPhoto \<Rightarrow> Inr (Some ''photo'')
      | Some (MessageMediaDocument doc) \<Rightarrow>
          (case doc of
             None \<Rightarrow> Inl AttributeError
           | Some attributes \<Rightarrow> Inr (Some (scan_attributes attributes)))
      | Some MessageMediaOther \<Rightarrow> Inr None)"


section \<open>Download dispatcher (main.py, \<^verbatim>\<open>download_media\<close>)\<close>

definition MAX_RETRIES :: nat where
  "MAX_RETRIES = 3"

definition INITIAL_RETRY_DELAY :: real where
  "INITIAL_RETRY_DELAY = 5"

definition MAX_RETRY_DELAY :: real where
  "MAX_RETRY_DELAY = 300"

text \<open>
  \<^verbatim>\<open>_get_media_meta\<close> returns a file name and a file format. Only the format is
  modelled (the name goes to the client and the file system, whose answers are inputs of
  the model below): the part of the MIME type after its last slash, or \<^verbatim>\<open>jpg\<close> for a
  photo without MIME type, or nothing.
\<close>

definition after_last_slash :: "string \<Rightarrow> string" where
  "after_last_slash s = rev (takeWhile (\<lambda>c. c \<noteq> CHR ''/'') (rev s))"

definition get_media_meta :: "media_object \<Rightarrow> string \<Rightarrow> string option" where
  "get_media_meta media_obj type =
     (case mime_type media_obj of
        Some m \<Rightarrow>
          (if m \<noteq> [] then Some (after_last_slash m)
           else if type = ''photo'' then Some ''jpg'' else None)
      | None \<Rightarrow> (if type = ''photo'' then Some ''jpg'' else None))"

definition media_object_of :: "message \<Rightarrow> string \<Rightarrow> media_object option" where
  "media_object_of message type =
     (if type = ''photo'' then photo message
      else if type = ''voice'' then voice message
      else if type = ''video_note'' then video_note message
      else document message)"

text \<open>
  What the outside world does during one pass through the \<^verbatim>\<open>try\<close> block: either some
  statement of a stage raises, or the download and the reconciliation run through and leave
  no path (\<^verbatim>\<open>download_media\<close> returned \<^verbatim>\<open>None\<close>), a path that exists with a size,
  or a path that no longer exists. An exception of a stage that the pass does not reach
  (the message was filtered out before) is not raised.
\<close>

datatype stage = Classification | PathResolution | Download | Reconciliation

datatype download_result = NoPath | FileOnDisk int | PathGone

datatype attempt_event = Raises stage py_exception | Completes download_result

datatype refetch_event = RefetchRaises py_exception | Refetched "message list"

text \<open>
  The behaviour of the client and the clock during one call of the dispatcher, by attempt
  number: the event of the attempt, the answer of \<^verbatim>\<open>get_messages\<close> and the value of
  \<^verbatim>\<open>random.uniform(0, 1)\<close>.
\<close>

record client_script =
  on_attempt :: "nat \<Rightarrow> attempt_event"
  on_refetch :: "nat \<Rightarrow> refetch_event"
  jitter :: "nat \<Rightarrow> real"

datatype body_result = ReturnId | BreakLoop download_state | Raise py_exception

fun raised_in :: "stage \<Rightarrow> attempt_event \<Rightarrow> py_exception option" where
  "raised_in s (Raises s' e) = (if s = s' then Some e else None)"
| "raised_in s (Completes r) = None"

definition try_body ::
  "attempt_event \<Rightarrow> message \<Rightarrow> string list \<Rightarrow> format_policy \<Rightarrow> download_state \<Rightarrow> body_result" where
  "try_body ev message media_types file_formats state =
     (case raised_in Classification ev of
        Some e \<Rightarrow> Raise e
      | None \<Rightarrow>
     (case get_media_type message of
        Inl e \<Rightarrow> Raise e
      | Inr None \<Rightarrow> ReturnId
      | Inr (Some type) \<Rightarrow>
     if type \<notin> set media_types then ReturnId
     else
     (case media_object_of message type of
        None \<Rightarrow> ReturnId
      | Some media_obj \<Rightarrow>
     (case raised_in PathResolution ev of
        Some e \<Rightarrow> Raise e
      | None \<Rightarrow>
     (let file_format = get_media_meta media_obj type in
      if can_download type file_formats file_format then
        (let file_size = (case obj_size media_obj of None \<Rightarrow> 0 | Some n \<Rightarrow> n) in
         case ev of
           Raises s e \<Rightarrow> Raise e
         | Completes NoPath \<Rightarrow> BreakLoop state
         | Completes (FileOnDisk actual_file_size) \<Rightarrow>
             BreakLoop (mark_downloaded state (msg_id message) actual_file_size)
         | Completes PathGone \<Rightarrow>
             BreakLoop (mark_downloaded state (msg_id message) file_size))
      else BreakLoop state)))))"

text \<open>
  The objects the dispatcher writes to, and what it does to the outside: the sleeps it
  awaits, the waiting times it computes, and the number of refetch calls.
\<close>

record dispatch_ctx =
  dl_state :: download_state
  handler :: "error_handler option"
  sleeps :: "real list"
  wait_times :: "real list"
  refetches :: nat

definition handle :: "dispatch_ctx \<Rightarrow> py_exception \<Rightarrow> int \<Rightarrow> bool \<Rightarrow> dispatch_ctx" where
  "handle c e message_id critical =
     c\<lparr>handler := map_option (\<lambda>h. handle_error h e (Some message_id) True critical) (handler c)\<rparr>"

definition failed :: "dispatch_ctx \<Rightarrow> int \<Rightarrow> dispatch_ctx" where
  "failed c message_id = c\<lparr>dl_state := mark_failed (dl_state c) message_id\<rparr>"

definition wait_time :: "nat \<Rightarrow> real \<Rightarrow> real" where
  "wait_time retry j = min MAX_RETRY_DELAY (2 ^ retry * INITIAL_RETRY_DELAY + j)"

text \<open>
  The statement through which \<^verbatim>\<open>_download_media_internal\<close> is left: the
  \<^verbatim>\<open>return\<close> of a filtered message, the \<^verbatim>\<open>break\<close> at the end of the \<^verbatim>\<open>try\<close>
  block, the \<^verbatim>\<open>return\<close> after a failed refetch, the \<^verbatim>\<open>break\<close> of the bad-request
  clause, the \<^verbatim>\<open>break\<close> of the catch-all clause, or the end of the \<^verbatim>\<open>for\<close> loop.
\<close>

datatype exit_path =
    FilteredOut
  | BodyDone
  | RefetchFailed
  | BadRequestBreak
  | UnexpectedBreak
  | LoopEnded

datatype outcome = Returns int exit_path | Propagates py_exception

function download_media_loop ::
  "client_script \<Rightarrow> string list \<Rightarrow> format_policy \<Rightarrow> nat \<Rightarrow> message \<Rightarrow> dispatch_ctx
     \<Rightarrow> outcome \<times> dispatch_ctx" where
  "download_media_loop sc media_types file_formats retry message c =
     (if retry < MAX_RETRIES then
        (case try_body (on_attempt sc retry) message media_types file_formats (dl_state c) of
           ReturnId \<Rightarrow> (Returns (msg_id message) FilteredOut, c)
         | BreakLoop st \<Rightarrow> (Returns (msg_id message) BodyDone, c\<lparr>dl_state := st\<rparr>)
         | Raise e \<Rightarrow>
             (case exc_class e of
                FileReferenceExpiredError \<Rightarrow>
                  (let c1 = handle c e (msg_id message) False in
                   if retry < MAX_RETRIES - 1 then
                     (let c2 = c1\<lparr>refetches := refetches c1 + 1\<rparr> in
                      case on_refetch sc retry of
                        RefetchRaises refetch_error \<Rightarrow>
                          (if exc_class refetch_error = NonException
                           then (Propagates refetch_error, c2)
                           else (Returns (msg_id message) RefetchFailed,
                                 failed (handle c2 refetch_error (msg_id message) False)
                                   (msg_id message)))
                      | Refetched messages \<Rightarrow>
                          download_media_loop sc media_types file_formats (retry + 1)
                            (case messages of [] \<Rightarrow> message | m # _ \<Rightarrow> m) c2)
                   else
                     download_media_loop sc media_types file_formats (retry + 1) message
                       (failed c1 (msg_id message)))
              | TimeoutError \<Rightarrow>
                  (let w = wait_time retry (jitter sc retry);
                       c1 = (handle c e (msg_id message) False)\<lparr>wait_times := wait_times c @ [w]\<rparr> in
                   if retry < MAX_RETRIES - 1 then
                     download_media_loop sc media_types file_formats (retry + 1) message
                       (c1\<lparr>sleeps := sleeps c1 @ [w]\<rparr>)
                   else
                     download_media_loop sc media_types file_formats (retry + 1) message
                       (failed c1 (msg_id message)))
              | BadRequestError \<Rightarrow>
                  (Returns (msg_id message) BadRequestBreak,
                   failed (handle c e (msg_id message) False) (msg_id message))
              | OtherException \<Rightarrow>
                  (Returns (msg_id message) UnexpectedBreak,
                   failed (handle c e (msg_id message) True) (msg_id message))
              | NonException \<Rightarrow> (Propagates e, c)))
      else (Returns (msg_id message) LoopEnded, c))"
  by pat_completeness auto
termination
  by (relation "measure (\<lambda>(sc, mt, ff, retry, message, c). MAX_RETRIES - retry)") auto

declare download_media_loop.simps [simp del]

definition download_media_internal ::
  "client_script \<Rightarrow> message \<Rightarrow> string list \<Rightarrow> format_policy \<Rightarrow> dispatch_ctx
     \<Rightarrow> outcome \<times> dispatch_ctx" where
  "download_media_internal sc message media_types file_formats c =
     download_media_loop sc media_types file_formats 0 message c"

text \<open>
  \<^verbatim>\<open>download_media\<close>: with a semaphore the internal function runs under it, without one
  it runs directly. The semaphore bounds how many calls run at once, which a sequential
  model does not show.
\<close>

definition download_media ::
  "client_script \<Rightarrow> message \<Rightarrow> string list \<Rightarrow> format_policy \<Rightarrow> dispatch_ctx \<Rightarrow> bool
     \<Rightarrow> outcome \<times> dispatch_ctx" where
  "download_media sc message media_types file_formats c download_semaphore =
     (if download_semaphore
      then download_media_internal sc message media_types file_formats c
      else download_media_internal sc message media_types file_formats c)"

definition failure_path :: "exit_path \<Rightarrow> bool" where
  "failure_path p = (p = RefetchFailed \<or> p = BadRequestBreak \<or> p = UnexpectedBreak \<or> p = LoopEnded)"

text \<open>
  A script whose exceptions all derive from \<^verbatim>\<open>Exception\<close>, and whose refetch answers
  carry the id that was asked for.
\<close>

definition only_exceptions :: "client_script \<Rightarrow> bool" where
  "only_exceptions sc =
     list_all
       (\<lambda>k. (case on_attempt sc k of
                Raises s e \<Rightarrow> exc_class e \<noteq> NonException
              | Completes r \<Rightarrow> True)
            \<and> (case on_refetch sc k of
                  RefetchRaises e \<Rightarrow> exc_class e \<noteq> NonException
                | Refetched ms \<Rightarrow> True))
       [0..<MAX_RETRIES]"

definition refetch_keeps_id :: "client_script \<Rightarrow> int \<Rightarrow> bool" where
  "refetch_keeps_id sc i =
     list_all
       (\<lambda>k. (case on_refetch sc k of
                RefetchRaises e \<Rightarrow> True
              | Refetched ms \<Rightarrow> (case ms of [] \<Rightarrow> True | m # _ \<Rightarrow> msg_id m = i)))
       [0..<MAX_RETRIES]"

text \<open>
  A message that gets as far as the download: it has an accepted kind, its media object is
  present and the format policy lets it pass. A script all of whose attempts raise a
  timeout, and one whose jitter values lie in the range of \<^verbatim>\<open>random.uniform(0, 1)\<close>.
\<close>

definition reaches_download :: "message \<Rightarrow> string list \<Rightarrow> format_policy \<Rightarrow> bool" where
  "reaches_download message media_types file_formats =
     (case get_media_type message of
        Inl e \<Rightarrow> False
      | Inr None \<Rightarrow> False
      | Inr (Some type) \<Rightarrow>
          type \<in> set media_types
          \<and> (case media_object_of message type of
                None \<Rightarrow> False
              | Some media_obj \<Rightarrow> can_download type file_formats (get_media_meta media_obj type)))"

definition always_times_out :: "client_script \<Rightarrow> bool" where
  "always_times_out sc =
     list_all
       (\<lambda>k. (case on_attempt sc k of
                Raises s e \<Rightarrow> exc_class e = TimeoutError
              | Completes r \<Rightarrow> False))
       [0..<MAX_RETRIES]"

definition jitter_in_range :: "client_script \<Rightarrow> bool" where
  "jitter_in_range sc = list_all (\<lambda>k. 0 \<le> jitter sc k \<and> jitter sc k < 1) [0..<MAX_RETRIES]"

definition new_ctx :: "download_state \<Rightarrow> error_handler option \<Rightarrow> dispatch_ctx" where
  "new_ctx st eh = \<lparr>dl_state = st, handler = eh, sleeps = [], wait_times = [], refetches = 0\<rparr>"

text \<open>Concrete inputs for the evaluations below.\<close>

definition photo_message :: "int \<Rightarrow> message" where
  "photo_message i =
     \<lparr>msg_id = i, msg_date = 0, media = Some MessageMediaPhoto,
      photo = Some \<lparr>mime_type = None, obj_size = None\<rparr>,
      voice = None, video_note = None, document = None\<rparr>"

definition py_exc :: "exc_class \<Rightarrow> string \<Rightarrow> py_exception" where
  "py_exc cls name = \<lparr>exc_class = cls, exc_type_name = name\<rparr>"

definition timeout_script :: client_script where
  "timeout_script =
     \<lparr>on_attempt = (\<lambda>k. Raises Download (py_exc TimeoutError ''TimeoutError'')),
      on_refetch = (\<lambda>k. Refetched []),
      jitter = (\<lambda>k. 1 / 2)\<rparr>"

definition mixed_script :: client_script where
  "mixed_script =
     \<lparr>on_attempt =
        (\<lambda>k. if k = 0 then Raises Download (py_exc TimeoutError ''TimeoutError'')
             else if k = 1
               then Raises Download (py_exc FileReferenceExpiredError ''FileReferenceExpiredError'')
             else Raises Download (py_exc BadRequestError ''BadRequestError'')),
      on_refetch = (\<lambda>k. Refetched [photo_message 7]),
      jitter = (\<lambda>k. 1 / 4)\<rparr>"

definition interrupt_script :: client_script where
  "interrupt_script =
     \<lparr>on_attempt = (\<lambda>k. Raises Reconciliation (py_exc NonException ''KeyboardInterrupt'')),
      on_refetch = (\<lambda>k. Refetched []),
      jitter = (\<lambda>k. 0)\<rparr>"

section \<open>Session orchestrator (main.py, \<^verbatim>\<open>begin_import\<close>)\<close>

text \<open>
  The configuration dictionary, with the keys the scan reads or writes. The two date bounds
  and the message cap are held as \<^verbatim>\<open>begin_import\<close> has them after parsing: a time stamp
  or nothing, a number or nothing.
\<close>

record config =
  last_read_message_id :: int
  ids_to_retry :: "int list"
  media_types :: "string list"
  file_formats :: format_policy
  start_date :: "int option"
  end_date :: "int option"
  max_messages :: "int option"

text \<open>
  The messaging client as the scan sees it: the messages its iterator yields, in order, and
  the messages it returns for the retry list. Every message comes with the script the
  client follows when that message is downloaded.
\<close>

record client =
  iter_messages :: "(message \<times> client_script) list"
  get_messages :: "(message \<times> client_script) list"

text \<open>
  The variables of \<^verbatim>\<open>begin_import\<close>. \<open>saved\<close> lists the configurations written to the
  configuration file, oldest first (the write is taken to succeed), and \<open>batches\<close> the
  lengths of the lists handed to \<^verbatim>\<open>process_messages\<close>, in call order.
\<close>

record scan =
  messages_list :: "(message \<times> client_script) list"
  pagination_count :: int
  total_count :: int
  skipped_count :: int
  last_read :: int
  cfg :: config
  saved :: "config list"
  ctx :: dispatch_ctx
  batches :: "nat list"

definition update_config :: "scan \<Rightarrow> scan" where
  "update_config s =
     (let cfg' = (cfg s)\<lparr>ids_to_retry := get_retry_ids (dl_state (ctx s)) (ids_to_retry (cfg s))\<rparr>
      in s\<lparr>cfg := cfg', saved := saved s @ [cfg']\<rparr>)"

text \<open>
  \<^verbatim>\<open>asyncio.gather\<close> over the downloads of a batch. The downloads interleave only at their
  await points and each change of the state is a single step, so the model runs them one
  after the other in list order; the first exception that leaves a download leaves the
  gather.
\<close>

fun gather ::
  "(message \<times> client_script) list \<Rightarrow> string list \<Rightarrow> format_policy \<Rightarrow> dispatch_ctx
     \<Rightarrow> (py_exception + int list) \<times> dispatch_ctx" where
  "gather [] mt ff c = (Inr [], c)"
| "gather ((message, sc) # rest) mt ff c =
     (case download_media sc message mt ff c True of
        (Propagates e, c') \<Rightarrow> (Inl e, c')
      | (Returns i p, c') \<Rightarrow>
          (case gather rest mt ff c' of
             (Inl e, c'') \<Rightarrow> (Inl e, c'')
           | (Inr ids, c'') \<Rightarrow> (Inr (i # ids), c'')))"

definition ValueError :: py_exception where
  "ValueError = \<lparr>exc_class = OtherException, exc_type_name = ''ValueError''\<rparr>"

text \<open>\<^verbatim>\<open>max\<close> of a list raises \<^verbatim>\<open>ValueError\<close> on the empty list.\<close>

definition py_max :: "int list \<Rightarrow> py_exception + int" where
  "py_max xs = (case xs of [] \<Rightarrow> Inl ValueError | x # rest \<Rightarrow> Inr (foldl max x rest))"

text \<open>The export of the batch to a JSON file is left out of \<^verbatim>\<open>process_messages\<close>.\<close>

definition process_messages ::
  "(message \<times> client_script) list \<Rightarrow> string list \<Rightarrow> format_policy \<Rightarrow> dispatch_ctx
     \<Rightarrow> (py_exception + int) \<times> dispatch_ctx" where
  "process_messages messages mt ff c =
     (case gather messages mt ff c of
        (Inl e, c') \<Rightarrow> (Inl e, c')
      | (Inr message_ids, c') \<Rightarrow> (py_max message_ids, c'))"

definition after_end :: "config \<Rightarrow> message \<Rightarrow> bool" where
  "after_end c message = (case end_date c of None \<Rightarrow> False | Some d \<Rightarrow> msg_date message > d)"

definition before_start :: "config \<Rightarrow> message \<Rightarrow> bool" where
  "before_start c message = (case start_date c of None \<Rightarrow> False | Some d \<Rightarrow> msg_date message < d)"

definition cap_reached :: "config \<Rightarrow> download_state \<Rightarrow> bool" where
  "cap_reached c st =
     (case max_messages c of
        None \<Rightarrow> False
      | Some n \<Rightarrow> n \<noteq> 0 \<and> int (length (downloaded_ids st)) \<ge> n)"

text \<open>The \<^verbatim>\<open>async for\<close> loop over the iterator; a \<^verbatim>\<open>break\<close> ends it like the end of the
  iterator does.\<close>

fun scan_loop ::
  "int \<Rightarrow> (message \<times> client_script) list \<Rightarrow> scan \<Rightarrow> py_exception + scan" where
  "scan_loop pagination_limit [] s = Inr s"
| "scan_loop pagination_limit ((message, sc) # rest) s =
     (let s1 = s\<lparr>total_count := total_count s + 1\<rparr> in
      if after_end (cfg s1) message then
        scan_loop pagination_limit rest (s1\<lparr>skipped_count := skipped_count s1 + 1\<rparr>)
      else if before_start (cfg s1) message then Inr s1
      else if pagination_count s1 \<noteq> pagination_limit then
        scan_loop pagination_limit rest
          (s1\<lparr>pagination_count := pagination_count s1 + 1,
               messages_list := messages_list s1 @ [(message, sc)]\<rparr>)
      else
        (case process_messages (messages_list s1) (media_types (cfg s1)) (file_formats (cfg s1))
                (ctx s1) of
           (Inl e, c') \<Rightarrow> Inl e
         | (Inr last_id, c') \<Rightarrow>
             (let s2 = s1\<lparr>last_read := last_id, ctx := c',
                          batches := batches s1 @ [length (messages_list s1)]\<rparr> in
              if cap_reached (cfg s2) (dl_state c') then Inr s2
              else
                (let s3 = s2\<lparr>pagination_count := 0,
                              messages_list := [(message, sc)],
                              cfg := (cfg s2)\<lparr>last_read_message_id := last_id\<rparr>\<rparr> in
                 scan_loop pagination_limit rest
                   (if int (length (downloaded_ids (dl_state c'))) mod 50 = 0
                    then update_config s3 else s3)))))"

definition init_scan :: "client \<Rightarrow> config \<Rightarrow> scan" where
  "init_scan cl c =
     (let seed = (if ids_to_retry c \<noteq> [] then get_messages cl else []) in
      \<lparr>messages_list = seed,
       pagination_count = int (length seed),
       total_count = 0,
       skipped_count = 0,
       last_read = last_read_message_id c,
       cfg = c,
       saved = [],
       ctx = new_ctx empty_state (Some new_error_handler),
       batches = []\<rparr>)"

definition drain :: "scan \<Rightarrow> py_exception + scan" where
  "drain s =
     (if messages_list s \<noteq> [] then
        (case process_messages (messages_list s) (media_types (cfg s)) (file_formats (cfg s))
                (ctx s) of
           (Inl e, c') \<Rightarrow> Inl e
         | (Inr last_id, c') \<Rightarrow>
             Inr (s\<lparr>last_read := last_id, ctx := c',
                    batches := batches s @ [length (messages_list s)]\<rparr>))
      else Inr s)"

definition finalize :: "scan \<Rightarrow> scan" where
  "finalize s = update_config (s\<lparr>cfg := (cfg s)\<lparr>last_read_message_id := last_read s\<rparr>\<rparr>)"

definition make_summary :: "scan \<Rightarrow> real \<Rightarrow> download_summary" where
  "make_summary s session_duration =
     \<lparr>total_messages = total_count s,
      successful_downloads = int (length (downloaded_ids (dl_state (ctx s)))),
      failed_downloads = int (length (failed_ids (dl_state (ctx s)))),
      skipped_messages = skipped_count s,
      summary_size_bytes = total_size_bytes (dl_state (ctx s)),
      duration_seconds = session_duration\<rparr>"

text \<open>
  \<^verbatim>\<open>begin_import\<close> from the point where the configuration has been validated and the
  client is connected. The result is the final state of its variables (with the returned
  configuration in \<open>cfg\<close>) and the summary, or the exception that leaves it.
\<close>

definition begin_import ::
  "client \<Rightarrow> config \<Rightarrow> int \<Rightarrow> real \<Rightarrow> py_exception + (scan \<times> download_summary)" where
  "begin_import cl c pagination_limit session_duration =
     (case scan_loop pagination_limit (iter_messages cl) (init_scan cl c) of
        Inl e \<Rightarrow> Inl e
      | Inr s1 \<Rightarrow>
          (case drain s1 of
             Inl e \<Rightarrow> Inl e
           | Inr s2 \<Rightarrow>
               (let s3 = finalize s2 in Inr (s3, make_summary s3 session_duration))))"

text \<open>
  A batch whose downloads let no exception through: the exceptions of every script derive
  from \<^verbatim>\<open>Exception\<close> and refetches keep the id. A configuration without date bounds and
  without message cap.
\<close>

definition well_behaved :: "message \<times> client_script \<Rightarrow> bool" where
  "well_behaved p = (only_exceptions (snd p) \<and> refetch_keeps_id (snd p) (msg_id (fst p)))"

definition unbounded :: "config \<Rightarrow> bool" where
  "unbounded c = (start_date c = None \<and> end_date c = None \<and> max_messages c = None)"

definition ids_of :: "(message \<times> client_script) list \<Rightarrow> int list" where
  "ids_of ms = map (\<lambda>p. msg_id (fst p)) ms"

definition done_script :: client_script where
  "done_script =
     \<lparr>on_attempt = (\<lambda>k. Completes (FileOnDisk 10)),
      on_refetch = (\<lambda>k. Refetched []),
      jitter = (\<lambda>k. 0)\<rparr>"

definition all_kinds :: "string list" where
  "all_kinds = [''audio'', ''document'', ''photo'', ''video'', ''video_note'', ''voice'']"

definition plain_config :: config where
  "plain_config =
     \<lparr>last_read_message_id = 0, ids_to_retry = [], media_types = all_kinds,
      file_formats = Map.empty, start_date = None, end_date = None, max_messages = None\<rparr>"

definition photo_client :: "int \<Rightarrow> client" where
  "photo_client n =
     \<lparr>iter_messages = map (\<lambda>i. (photo_message i, done_script)) [1..n], get_messages = []\<rparr>"

section \<open>File reconciler (utils/file_management.py)\<close>

text \<open>
  The directory that holds the new file, as the reconciler sees it. Its entries come in the
  order in which the directory is listed, each with its name, its bytes if it can be opened
  and read (a directory or a file without read permission cannot), and whether
  \<^verbatim>\<open>os.remove\<close> succeeds on it. How the operating system resolves a path is an input:
  \<open>designates\<close> gives the name of the entry that a path string leads to when it is opened
  or removed (nothing when it leads elsewhere), and \<open>lists_dir\<close> tells whether a string
  names the directory itself when \<^verbatim>\<open>glob\<close> lists it. Two strings may designate the
  same entry. Files of other directories are not modelled.
\<close>

type_synonym byte = "8 word"

record fs_entry =
  content :: "byte list option"
  removable :: bool

record file_system =
  entries :: "(string \<times> fs_entry) list"
  designates :: "string \<Rightarrow> string option"
  lists_dir :: "string \<Rightarrow> bool"

definition IOError :: py_exception where
  "IOError = \<lparr>exc_class = OtherException, exc_type_name = ''OSError''\<rparr>"

definition lookup :: "file_system \<Rightarrow> string \<Rightarrow> fs_entry option" where
  "lookup fs file_path =
     (case designates fs file_path of
        None \<Rightarrow> None
      | Some name \<Rightarrow> map_of (entries fs) name)"

text \<open>
  \<^verbatim>\<open>iter(lambda: f.read(4096), b"")\<close>: the chunks of at most 4096 bytes read until the
  file is exhausted.
\<close>

function read_chunks :: "nat \<Rightarrow> byte list \<Rightarrow> byte list list" where
  "read_chunks n bs =
     (if n = 0 \<or> bs = [] then [] else take n bs # read_chunks n (drop n bs))"
  by pat_completeness auto
termination
  by (relation "measure (\<lambda>(n, bs). length bs)") auto

declare read_chunks.simps [simp del]

text \<open>
  The digest is a parameter \<open>md5\<close>, a function of the bytes fed to the hash object:
  feeding the chunks one by one is feeding their concatenation.
\<close>

definition calculate_file_hash ::
  "(byte list \<Rightarrow> string) \<Rightarrow> file_system \<Rightarrow> string \<Rightarrow> py_exception + string" where
  "calculate_file_hash md5 fs file_path =
     (case lookup fs file_path of
        None \<Rightarrow> Inl IOError
      | Some e \<Rightarrow>
          (case content e of
             None \<Rightarrow> Inl IOError
           | Some bs \<Rightarrow> Inr (md5 (concat (read_chunks 4096 bs)))))"

text \<open>
  \<^verbatim>\<open>pathlib.Path\<close> on a POSIX system. The root of a path is two slashes when the string
  begins with exactly two, one slash when it begins with one or with three or more, and
  empty otherwise; the parts are the pieces between slashes other than the empty piece and
  the single dot. The name is the last part, the parent is the path without it, written
  with single slashes, and the parent of a bare name is the dot.
\<close>

fun split_on :: "char \<Rightarrow> string \<Rightarrow> string list" where
  "split_on c [] = [[]]"
| "split_on c (x # xs) =
     (if x = c then [] # split_on c xs
      else (case split_on c xs of
              [] \<Rightarrow> [[x]]
            | y # ys \<Rightarrow> (x # y) # ys))"

definition path_root :: "string \<Rightarrow> string" where
  "path_root p =
     (if take 1 p \<noteq> ''/'' then []
      else if length (takeWhile (\<lambda>c. c = CHR ''/'') p) = 2 then ''//''
      else ''/'')"

definition path_parts :: "string \<Rightarrow> string list" where
  "path_parts p = filter (\<lambda>x. x \<noteq> [] \<and> x \<noteq> ''.'') (split_on CHR ''/'' p)"

definition path_name :: "string \<Rightarrow> string" where
  "path_name p = (case path_parts p of [] \<Rightarrow> [] | x # xs \<Rightarrow> last (x # xs))"

definition path_parent :: "string \<Rightarrow> string" where
  "path_parent p =
     (if path_root p = [] \<and> butlast (path_parts p) = [] then ''.''
      else path_root p @ py_join ''/'' (butlast (path_parts p)))"

text \<open>\<^verbatim>\<open>str.rfind\<close> of a character, and \<^verbatim>\<open>PurePath.stem\<close> of a file name.\<close>

fun rfind :: "char \<Rightarrow> string \<Rightarrow> nat option" where
  "rfind c [] = None"
| "rfind c (x # xs) =
     (case rfind c xs of
        Some i \<Rightarrow> Some (Suc i)
      | None \<Rightarrow> (if x = c then Some 0 else None))"

definition stem :: "string \<Rightarrow> string" where
  "stem name =
     (case rfind CHR ''.'' name of
        None \<Rightarrow> name
      | Some i \<Rightarrow> (if 0 < i \<and> i < length name - 1 then take i name else name))"

text \<open>\<^verbatim>\<open>s.split(sep)[0]\<close>: the part of \<open>s\<close> before the first occurrence of \<open>sep\<close>.\<close>

fun before_first :: "string \<Rightarrow> string \<Rightarrow> string" where
  "before_first sep [] = []"
| "before_first sep (x # xs) =
     (if take (length sep) (x # xs) = sep then [] else x # before_first sep xs)"

text \<open>
  \<^verbatim>\<open>os.path.split\<close> cuts a path after its last slash and strips the slashes at the end
  of the head, unless the head is made of slashes only; \<^verbatim>\<open>os.path.join\<close> of two
  pieces puts one slash between them, unless the first ends with one or is empty, and
  gives the second alone when that begins with a slash.
\<close>

definition os_path_split :: "string \<Rightarrow> string \<times> string" where
  "os_path_split p =
     (let i = (case rfind CHR ''/'' p of None \<Rightarrow> 0 | Some k \<Rightarrow> k + 1);
          head = take i p;
          tail = drop i p
      in (if head \<noteq> [] \<and> \<not> list_all (\<lambda>c. c = CHR ''/'') head
          then rev (dropWhile (\<lambda>c. c = CHR ''/'') (rev head))
          else head,
          tail))"

definition os_path_join :: "string \<Rightarrow> string \<Rightarrow> string" where
  "os_path_join a b =
     (if take 1 b = ''/'' then b
      else if a = [] \<or> last a = CHR ''/'' then a @ b
      else a @ ''/'' @ b)"

text \<open>
  \<^verbatim>\<open>glob.glob\<close> of a pattern whose brackets have been escaped. The pattern is split
  into its directory and the pattern of the name. In the pattern of the name a bracket
  stands for itself, a star for any string and a question mark for any character; names
  that begin with a dot are only listed when the pattern begins with a dot. Each name that
  matches is joined to the directory as the pattern writes it. The directory part is taken
  to match the directory alone: it holds no star or question mark that another directory
  would match.
\<close>

datatype glob_token = Lit char | AnyChar | AnyString

fun glob_token_of :: "char \<Rightarrow> glob_token" where
  "glob_token_of c =
     (if c = CHR ''*'' then AnyString else if c = CHR ''?'' then AnyChar else Lit c)"

fun glob_match :: "glob_token list \<Rightarrow> string \<Rightarrow> bool" where
  "glob_match [] s = (s = [])"
| "glob_match (Lit c # ps) [] = False"
| "glob_match (Lit c # ps) (x # xs) = (x = c \<and> glob_match ps xs)"
| "glob_match (AnyChar # ps) [] = False"
| "glob_match (AnyChar # ps) (x # xs) = glob_match ps xs"
| "glob_match (AnyString # ps) [] = glob_match ps []"
| "glob_match (AnyString # ps) (x # xs) =
     (glob_match ps (x # xs) \<or> glob_match (AnyString # ps) xs)"

definition ishidden :: "string \<Rightarrow> bool" where
  "ishidden s = (case s of [] \<Rightarrow> False | c # _ \<Rightarrow> c = CHR ''.'')"

definition glob1 :: "file_system \<Rightarrow> string \<Rightarrow> string \<Rightarrow> string list" where
  "glob1 fs dirname pattern =
     (if lists_dir fs dirname then
        filter
          (\<lambda>name. (ishidden pattern \<or> \<not> ishidden name)
             \<and> glob_match (map glob_token_of pattern) name)
          (map fst (entries fs))
      else [])"

definition glob_escaped :: "file_system \<Rightarrow> string \<Rightarrow> string list" where
  "glob_escaped fs pathname =
     (let (dirname, basename) = os_path_split pathname
      in map (os_path_join dirname) (glob1 fs dirname basename))"

definition os_remove :: "file_system \<Rightarrow> string \<Rightarrow> py_exception + file_system" where
  "os_remove fs file_path =
     (case designates fs file_path of
        None \<Rightarrow> Inl IOError
      | Some name \<Rightarrow>
          (case map_of (entries fs) name of
             None \<Rightarrow> Inl IOError
           | Some e \<Rightarrow>
               (if removable e
                then Inr (fs\<lparr>entries := filter (\<lambda>p. fst p \<noteq> name) (entries fs)\<rparr>)
                else Inl IOError)))"

text \<open>The loop of \<^verbatim>\<open>manage_duplicate_file\<close> over the candidates.\<close>

fun check_old_files ::
  "(byte list \<Rightarrow> string) \<Rightarrow> file_system \<Rightarrow> string \<Rightarrow> string \<Rightarrow> string list
     \<Rightarrow> string \<times> file_system" where
  "check_old_files md5 fs file_path current_file_md5 [] = (file_path, fs)"
| "check_old_files md5 fs file_path current_file_md5 (old_file_path # rest) =
     (case calculate_file_hash md5 fs old_file_path of
        Inl e \<Rightarrow> check_old_files md5 fs file_path current_file_md5 rest
      | Inr old_file_md5 \<Rightarrow>
          (if current_file_md5 = old_file_md5 then
             (case os_remove fs file_path of
                Inr fs' \<Rightarrow> (old_file_path, fs')
              | Inl e \<Rightarrow> (file_path, fs))
           else check_old_files md5 fs file_path current_file_md5 rest))"

definition file_base_name :: "string \<Rightarrow> string" where
  "file_base_name file_path = before_first ''-copy'' (stem (path_name file_path))"

definition name_pattern :: "string \<Rightarrow> string" where
  "name_pattern file_path = path_parent file_path @ ''/'' @ file_base_name file_path @ ''*''"

text \<open>
  The candidates: what \<^verbatim>\<open>glob\<close> gives, without the first string equal to the path of
  the new file (\<^verbatim>\<open>if file_path in old_files: old_files.remove(file_path)\<close>).
\<close>

definition old_files :: "file_system \<Rightarrow> string \<Rightarrow> string list" where
  "old_files fs file_path = remove1 file_path (glob_escaped fs (name_pattern file_path))"

definition manage_duplicate_file ::
  "(byte list \<Rightarrow> string) \<Rightarrow> file_system \<Rightarrow> string \<Rightarrow> string \<times> file_system" where
  "manage_duplicate_file md5 fs file_path =
     (case calculate_file_hash md5 fs file_path of
        Inl e \<Rightarrow> (file_path, fs)
      | Inr current_file_md5 \<Rightarrow>
          check_old_files md5 fs file_path current_file_md5 (old_files fs file_path))"

text \<open>
  A candidate that does not stop the loop: it cannot be read, or its digest differs from
  the digest of the new file.
\<close>

definition no_match :: "(byte list \<Rightarrow> string) \<Rightarrow> file_system \<Rightarrow> string \<Rightarrow> string \<Rightarrow> bool" where
  "no_match md5 fs h file_path =
     (case calculate_file_hash md5 fs file_path of Inl e \<Rightarrow> True | Inr h' \<Rightarrow> h \<noteq> h')"

text \<open>
  The directory of the pattern, as \<^verbatim>\<open>glob\<close> splits it off and lists it.
\<close>

definition pattern_dir :: "string \<Rightarrow> string" where
  "pattern_dir file_path = fst (os_path_split (name_pattern file_path))"

text \<open>
  A file system for the evaluations, in which a path leads to the directory \<open>dir\<close> by its
  parts: slashes in a row and single dots do not count, and a path with a double dot or
  with a slash at its end designates nothing.
\<close>

definition plain_fs :: "string \<Rightarrow> (string \<times> fs_entry) list \<Rightarrow> file_system" where
  "plain_fs dir es =
     \<lparr>entries = es,
      designates =
        (\<lambda>p. if path_parts p \<noteq> [] \<and> butlast (path_parts p) = path_parts dir
                   \<and> (path_root p = []) = (path_root dir = [])
                   \<and> last (split_on CHR ''/'' p) = last (path_parts p)
                   \<and> ''..'' \<notin> set (path_parts p)
              then Some (last (path_parts p)) else None),
      lists_dir =
        (\<lambda>s. s \<noteq> [] \<and> path_parts s = path_parts dir
               \<and> (path_root s = []) = (path_root dir = []))\<rparr>"

definition readable_file :: "byte list \<Rightarrow> fs_entry" where
  "readable_file bs = \<lparr>content = Some bs, removable = True\<rparr>"

text \<open>A stand-in digest for the evaluations: the number of bytes and their sum.\<close>

definition toy_digest :: "byte list \<Rightarrow> string" where
  "toy_digest bs = str_nat (length bs) @ ''-'' @ str_nat (sum_list (map unat bs))"

section \<open>Properties of the download state\<close>

lemma set_py_set_difference: "set (py_set_difference xs ys) = set xs - set ys"
  by (auto simp: py_set_difference_def)

text \<open>
  Claim C3. For every previous retry list and every download state, the derived retry list
  is, as a set, the previous retry ids minus the downloaded ids, together with the failed
  ids. Hence every failed id is in it, and an id of the previous list that was downloaded
  and did not fail is not. For the previous list 1, 2, 3, downloaded 2 and failed 4 the
  result is the set 1, 3, 4.
\<close>

theorem retry_list_law:
  "set (get_retry_ids st prev) = (set prev - set (downloaded_ids st)) \<union> set (failed_ids st)
   \<and> (\<forall>i. i \<in> set (failed_ids st) \<longrightarrow> i \<in> set (get_retry_ids st prev))
   \<and> (\<forall>i. i \<in> set prev \<and> i \<in> set (downloaded_ids st) \<and> i \<notin> set (failed_ids st)
          \<longrightarrow> i \<notin> set (get_retry_ids st prev))
   \<and> set (get_retry_ids \<lparr>failed_ids = [4], downloaded_ids = [2], total_size_bytes = n\<rparr> [1, 2, 3])
       = {1, 3, 4}"
  by (auto simp: get_retry_ids_def set_py_set_difference)

theorem retry_list_law_witness:
  "(4::int) \<in> set (failed_ids \<lparr>failed_ids = [4], downloaded_ids = [2], total_size_bytes = 0\<rparr>)
   \<and> 4 \<in> set (get_retry_ids \<lparr>failed_ids = [4], downloaded_ids = [2], total_size_bytes = 0\<rparr> [1, 2, 3])
   \<and> (2::int) \<in> set [1, 2, 3]
   \<and> 2 \<in> set (downloaded_ids \<lparr>failed_ids = [4], downloaded_ids = [2], total_size_bytes = 0\<rparr>)
   \<and> 2 \<notin> set (failed_ids \<lparr>failed_ids = [4], downloaded_ids = [2], total_size_bytes = 0\<rparr>)
   \<and> 2 \<notin> set (get_retry_ids \<lparr>failed_ids = [4], downloaded_ids = [2], total_size_bytes = 0\<rparr> [1, 2, 3])"
  using retry_list_law [of "\<lparr>failed_ids = [4], downloaded_ids = [2], total_size_bytes = 0\<rparr>" "[1, 2, 3]" 0]
  by simp

lemma downloaded_ids_foldl:
  "set (downloaded_ids (foldl apply_state_op st ops)) = set (downloaded_ids st) \<union> marked_downloaded ops"
proof (induction ops arbitrary: st)
  case Nil
  show ?case by simp
next
  case (Cons a ops)
  show ?case by (cases a) (auto simp: Cons.IH mark_downloaded_def mark_failed_def)
qed

lemma failed_ids_foldl:
  "set (failed_ids (foldl apply_state_op st ops)) = set (failed_ids st) \<union> marked_failed ops"
proof (induction ops arbitrary: st)
  case Nil
  show ?case by simp
next
  case (Cons a ops)
  show ?case by (cases a) (auto simp: Cons.IH mark_downloaded_def mark_failed_def)
qed

lemma distinct_foldl:
  "distinct (downloaded_ids st) \<Longrightarrow> distinct (failed_ids st) \<Longrightarrow>
   distinct (downloaded_ids (foldl apply_state_op st ops))
   \<and> distinct (failed_ids (foldl apply_state_op st ops))"
proof (induction ops arbitrary: st)
  case Nil
  then show ?case by simp
next
  case (Cons a ops)
  have "distinct (downloaded_ids (apply_state_op st a)) \<and> distinct (failed_ids (apply_state_op st a))"
    using Cons.prems by (cases a) (auto simp: mark_downloaded_def mark_failed_def)
  then show ?case using Cons.IH by simp
qed

lemma count_list_distinct: "distinct xs \<Longrightarrow> x \<in> set xs \<Longrightarrow> count_list xs x = 1"
  by (induction xs) auto

text \<open>
  Claim C4, as stated, fails: \<^verbatim>\<open>mark_downloaded\<close> looks only at \<^verbatim>\<open>downloaded_ids\<close> and
  \<^verbatim>\<open>mark_failed\<close> only at \<^verbatim>\<open>failed_ids\<close>, so an id marked failed and then marked
  downloaded is in both lists.
\<close>

theorem state_sets_disjoint_counterexample:
  "1 \<in> set (downloaded_ids (run_state_ops [MarkFailed 1, MarkDownloaded 1 10]))
   \<and> 1 \<in> set (failed_ids (run_state_ops [MarkFailed 1, MarkDownloaded 1 10]))"
  by (simp add: run_state_ops_def empty_state_def mark_downloaded_def mark_failed_def)

text \<open>
  Claim C4, amended. For every sequence of \<^verbatim>\<open>mark_downloaded\<close> and \<^verbatim>\<open>mark_failed\<close>
  calls starting from the empty state: each of the two lists holds every id at most once;
  the ids in both lists are exactly the ids that were passed to both operations, so the
  lists are disjoint whenever no id was passed to both; and a call with an id already in
  its own list is a no-op, so that after a repeated call the list holds exactly one copy of
  the id and (for \<^verbatim>\<open>mark_downloaded\<close>) \<^verbatim>\<open>total_size_bytes\<close> is what the first call left.
\<close>

theorem state_sets_law:
  "distinct (downloaded_ids (run_state_ops ops))
   \<and> distinct (failed_ids (run_state_ops ops))
   \<and> set (downloaded_ids (run_state_ops ops)) \<inter> set (failed_ids (run_state_ops ops))
       = marked_downloaded ops \<inter> marked_failed ops
   \<and> (marked_downloaded ops \<inter> marked_failed ops = {}
        \<longrightarrow> set (downloaded_ids (run_state_ops ops)) \<inter> set (failed_ids (run_state_ops ops)) = {})
   \<and> (i \<in> set (downloaded_ids (run_state_ops ops))
        \<longrightarrow> mark_downloaded (run_state_ops ops) i n = run_state_ops ops)
   \<and> (i \<in> set (failed_ids (run_state_ops ops))
        \<longrightarrow> mark_failed (run_state_ops ops) i = run_state_ops ops)
   \<and> mark_downloaded (mark_downloaded (run_state_ops ops) i n) i n'
       = mark_downloaded (run_state_ops ops) i n
   \<and> count_list (downloaded_ids (mark_downloaded (mark_downloaded (run_state_ops ops) i n) i n')) i = 1
   \<and> mark_failed (mark_failed (run_state_ops ops) i) i = mark_failed (run_state_ops ops) i
   \<and> count_list (failed_ids (mark_failed (mark_failed (run_state_ops ops) i) i)) i = 1"
proof -
  let ?st = "run_state_ops ops"
  have d: "distinct (downloaded_ids ?st)" and f: "distinct (failed_ids ?st)"
    using distinct_foldl [of empty_state ops] by (simp_all add: run_state_ops_def empty_state_def)
  have sets: "set (downloaded_ids ?st) = marked_downloaded ops" "set (failed_ids ?st) = marked_failed ops"
    by (simp_all add: run_state_ops_def downloaded_ids_foldl failed_ids_foldl empty_state_def)
  have idem_d: "mark_downloaded (mark_downloaded ?st i n) i n' = mark_downloaded ?st i n"
    by (simp add: mark_downloaded_def)
  have idem_f: "mark_failed (mark_failed ?st i) i = mark_failed ?st i"
    by (simp add: mark_failed_def)
  have cnt_d: "count_list (downloaded_ids (mark_downloaded ?st i n)) i = 1"
    using d by (auto simp: mark_downloaded_def count_list_distinct)
  have cnt_f: "count_list (failed_ids (mark_failed ?st i)) i = 1"
    using f by (auto simp: mark_failed_def count_list_distinct)
  show ?thesis
    using d f sets idem_d idem_f cnt_d cnt_f
    by (simp add: mark_downloaded_def mark_failed_def)
qed

theorem state_sets_law_witness:
  "marked_downloaded [MarkDownloaded 7 100, MarkFailed 8, MarkDownloaded 7 5] \<inter>
     marked_failed [MarkDownloaded 7 100, MarkFailed 8, MarkDownloaded 7 5] = {}
   \<and> set (downloaded_ids (run_state_ops [MarkDownloaded 7 100, MarkFailed 8, MarkDownloaded 7 5])) \<inter>
     set (failed_ids (run_state_ops [MarkDownloaded 7 100, MarkFailed 8, MarkDownloaded 7 5])) = {}
   \<and> 7 \<in> set (downloaded_ids (run_state_ops [MarkDownloaded 7 100, MarkFailed 8, MarkDownloaded 7 5]))
   \<and> mark_downloaded (run_state_ops [MarkDownloaded 7 100, MarkFailed 8, MarkDownloaded 7 5]) 7 5
       = run_state_ops [MarkDownloaded 7 100, MarkFailed 8, MarkDownloaded 7 5]
   \<and> 8 \<in> set (failed_ids (run_state_ops [MarkDownloaded 7 100, MarkFailed 8, MarkDownloaded 7 5]))
   \<and> mark_failed (run_state_ops [MarkDownloaded 7 100, MarkFailed 8, MarkDownloaded 7 5]) 8
       = run_state_ops [MarkDownloaded 7 100, MarkFailed 8, MarkDownloaded 7 5]
   \<and> total_size_bytes (run_state_ops [MarkDownloaded 7 100, MarkFailed 8, MarkDownloaded 7 5]) = 100"
proof -
  have a: "marked_downloaded [MarkDownloaded 7 100, MarkFailed 8, MarkDownloaded 7 5] \<inter>
     marked_failed [MarkDownloaded 7 100, MarkFailed 8, MarkDownloaded 7 5] = {}"
    by simp
  have b: "7 \<in> set (downloaded_ids (run_state_ops [MarkDownloaded 7 100, MarkFailed 8, MarkDownloaded 7 5]))"
    by (simp add: run_state_ops_def empty_state_def mark_downloaded_def mark_failed_def)
  have c: "8 \<in> set (failed_ids (run_state_ops [MarkDownloaded 7 100, MarkFailed 8, MarkDownloaded 7 5]))"
    by (simp add: run_state_ops_def empty_state_def mark_downloaded_def mark_failed_def)
  have t: "total_size_bytes (run_state_ops [MarkDownloaded 7 100, MarkFailed 8, MarkDownloaded 7 5]) = 100"
    by (simp add: run_state_ops_def empty_state_def mark_downloaded_def mark_failed_def)
  show ?thesis
    using a b c t
      state_sets_law [where ops = "[MarkDownloaded 7 100, MarkFailed 8, MarkDownloaded 7 5]"
                        and i = 7 and n = 5]
      state_sets_law [where ops = "[MarkDownloaded 7 100, MarkFailed 8, MarkDownloaded 7 5]"
                        and i = 8]
    by blast
qed

section \<open>Properties of the format policy check\<close>

text \<open>
  Claim C5, as stated, fails for a list that holds a null entry: the membership test is
  Python's \<^verbatim>\<open>not in\<close>, and a missing format is a member of such a list.
\<close>

theorem can_download_null_entry_counterexample:
  "can_download ''audio'' [''audio'' \<mapsto> FmtList [Null]] None"
  by (simp add: can_download_def py_value_def)

text \<open>
  Claim C5, amended. The format check passes every kind other than audio, document and
  video. For one of these three kinds it fails when the policy has no entry for the kind,
  or the entry is not a list, or is the empty list; it passes when the first element of the
  list is the string \<^verbatim>\<open>all\<close>; otherwise it passes exactly when the detected format is a
  member of the list: a format string when the list holds that string, and a missing format
  when the list holds a null entry, so that a missing format never passes a list without
  null entries. The three examples of the specification hold.
\<close>

theorem can_download_law:
  "(type \<notin> {''audio'', ''document'', ''video''} \<longrightarrow> can_download type ff f)
   \<and> (type \<in> {''audio'', ''document'', ''video''} \<and> ff type = None \<longrightarrow> \<not> can_download type ff f)
   \<and> (type \<in> {''audio'', ''document'', ''video''} \<and> ff type = Some NotAList \<longrightarrow> \<not> can_download type ff f)
   \<and> (type \<in> {''audio'', ''document'', ''video''} \<and> ff type = Some (FmtList []) \<longrightarrow> \<not> can_download type ff f)
   \<and> (type \<in> {''audio'', ''document'', ''video''} \<and> ff type = Some (FmtList (Str ''all'' # rest))
        \<longrightarrow> can_download type ff f)
   \<and> (type \<in> {''audio'', ''document'', ''video''} \<and> ff type = Some (FmtList (a # rest))
        \<and> a \<noteq> Str ''all''
        \<longrightarrow> can_download type ff (Some x) = (Str x \<in> set (a # rest)))
   \<and> (type \<in> {''audio'', ''document'', ''video''} \<and> ff type = Some (FmtList (a # rest))
        \<and> a \<noteq> Str ''all''
        \<longrightarrow> can_download type ff None = (Null \<in> set (a # rest)))
   \<and> (type \<in> {''audio'', ''document'', ''video''} \<and> ff type = Some (FmtList (a # rest))
        \<and> a \<noteq> Str ''all'' \<and> Null \<notin> set (a # rest)
        \<longrightarrow> \<not> can_download type ff None)
   \<and> can_download ''video'' [''video'' \<mapsto> FmtList [Str ''all'']] (Some ''mkv'')
   \<and> \<not> can_download ''audio'' [''audio'' \<mapsto> FmtList [Str ''mp3'']] (Some ''wav'')
   \<and> can_download ''photo'' Map.empty f"
  by (auto simp: can_download_def py_value_def split: option.splits)

theorem can_download_law_witness:
  "''voice'' \<notin> {''audio'', ''document'', ''video''}
   \<and> can_download ''voice'' Map.empty None
   \<and> ''document'' \<in> {''audio'', ''document'', ''video''}
   \<and> (Map.empty :: format_policy) ''document'' = None
   \<and> \<not> can_download ''document'' Map.empty (Some ''pdf'')
   \<and> [''audio'' \<mapsto> FmtList [Str ''mp3'', Str ''ogg'']] ''audio''
        = Some (FmtList (Str ''mp3'' # [Str ''ogg'']))
   \<and> Str ''mp3'' \<noteq> Str ''all''
   \<and> Null \<notin> set (Str ''mp3'' # [Str ''ogg''])
   \<and> can_download ''audio'' [''audio'' \<mapsto> FmtList [Str ''mp3'', Str ''ogg'']] (Some ''ogg'')
   \<and> \<not> can_download ''audio'' [''audio'' \<mapsto> FmtList [Str ''mp3'', Str ''ogg'']] (Some ''wav'')
   \<and> \<not> can_download ''audio'' [''audio'' \<mapsto> FmtList [Str ''mp3'', Str ''ogg'']] None
   \<and> can_download ''video'' [''video'' \<mapsto> FmtList [Str ''mp4'', Null]] None"
  using can_download_law [where type = "''voice''" and ff = Map.empty and f = None]
        can_download_law [where type = "''document''" and ff = Map.empty and f = "Some ''pdf''"]
        can_download_law [where type = "''audio''"
                            and ff = "[''audio'' \<mapsto> FmtList [Str ''mp3'', Str ''ogg'']]"
                            and rest = "[Str ''ogg'']" and a = "Str ''mp3''" and x = "''ogg''"]
        can_download_law [where type = "''audio''"
                            and ff = "[''audio'' \<mapsto> FmtList [Str ''mp3'', Str ''ogg'']]"
                            and rest = "[Str ''ogg'']" and a = "Str ''mp3''" and x = "''wav''"]
        can_download_law [where type = "''video''"
                            and ff = "[''video'' \<mapsto> FmtList [Str ''mp4'', Null]]"
                            and rest = "[Null]" and a = "Str ''mp4''"]
  by simp

section \<open>Properties of the session summary\<close>

lemma ratio_below_overflow:
  assumes "0 \<le> a" and "0 \<le> b" and "a + b \<noteq> (0::int)"
  shows "\<bar>real_of_int a / real_of_int (a + b)\<bar> < FLOAT_OVERFLOW"
proof -
  define q where "q = real_of_int a / real_of_int (a + b)"
  have pos: "0 < real_of_int (a + b)" using assms by simp
  have "real_of_int a \<le> real_of_int (a + b)" using assms by simp
  then have le: "q \<le> 1"
    unfolding q_def using pos by (simp only: divide_le_eq_1_pos)
  have ge: "0 \<le> q"
    unfolding q_def using assms(1) pos by (simp only: divide_nonneg_pos of_int_0_le_iff)
  have one: "(1::real) < FLOAT_OVERFLOW"
    by (simp add: FLOAT_OVERFLOW_def)
  have "\<bar>q\<bar> < FLOAT_OVERFLOW"
    using le ge one by linarith
  then show ?thesis by (simp only: q_def)
qed

text \<open>
  Claim C10, as stated, fails on summaries with a negative count, which the dataclass
  admits: with \<open>10 ^ 400\<close> successful and \<open>1 - 10 ^ 400\<close> failed downloads the divisor is 1
  and the division raises \<^verbatim>\<open>OverflowError\<close>.
\<close>

theorem success_rate_overflow_counterexample:
  "get_success_rate \<lparr>total_messages = 0, successful_downloads = 10 ^ 400,
       failed_downloads = 1 - 10 ^ 400, skipped_messages = 0, summary_size_bytes = 0,
       duration_seconds = 0\<rparr> = Inl OverflowError"
  by (simp add: get_success_rate_def py_truediv_def FLOAT_OVERFLOW_def Let_def)

text \<open>
  Claim C10, amended. For every summary whose successful and failed download counts are not
  negative (\<^verbatim>\<open>begin_import\<close> builds them from list lengths), \<^verbatim>\<open>get_success_rate\<close>
  returns a value and raises nothing: 0 when the two counts add up to zero, and otherwise
  the successful downloads divided by that sum, times 100. For every summary whatsoever the
  division is only reached with a divisor that is not zero, so it never raises
  \<^verbatim>\<open>ZeroDivisionError\<close>; the only exception that can leave the function is the
  \<^verbatim>\<open>OverflowError\<close> of a quotient too large for a float.
\<close>

theorem success_rate_total:
  "(0 \<le> successful_downloads s \<and> 0 \<le> failed_downloads s \<longrightarrow>
      get_success_rate s =
        (if successful_downloads s + failed_downloads s = 0 then Inr 0
         else Inr (real_of_int (successful_downloads s)
                    / real_of_int (successful_downloads s + failed_downloads s) * 100)))
   \<and> get_success_rate s \<noteq> Inl ZeroDivisionError
   \<and> (successful_downloads s + failed_downloads s = 0 \<longrightarrow> get_success_rate s = Inr 0)
   \<and> (successful_downloads s + failed_downloads s \<noteq> 0
        \<and> \<bar>real_of_int (successful_downloads s)
             / real_of_int (successful_downloads s + failed_downloads s)\<bar> < FLOAT_OVERFLOW \<longrightarrow>
        get_success_rate s =
          Inr (real_of_int (successful_downloads s)
                / real_of_int (successful_downloads s + failed_downloads s) * 100))
   \<and> (get_success_rate s = Inl e \<longrightarrow>
        e = OverflowError \<and> successful_downloads s + failed_downloads s \<noteq> 0
        \<and> FLOAT_OVERFLOW \<le> \<bar>real_of_int (successful_downloads s)
             / real_of_int (successful_downloads s + failed_downloads s)\<bar>)"
proof -
  let ?a = "successful_downloads s" and ?b = "failed_downloads s"
  have nonneg: "get_success_rate s =
        (if ?a + ?b = 0 then Inr 0
         else Inr (real_of_int ?a / real_of_int (?a + ?b) * 100))"
    if "0 \<le> ?a" "0 \<le> ?b"
  proof (cases "?a + ?b = 0")
    case True
    then show ?thesis by (simp add: get_success_rate_def Let_def)
  next
    case False
    then show ?thesis
      using ratio_below_overflow [OF that False]
      by (simp add: get_success_rate_def py_truediv_def Let_def)
  qed
  have names: "ZeroDivisionError \<noteq> OverflowError"
    by (simp add: ZeroDivisionError_def OverflowError_def)
  have rest: "get_success_rate s \<noteq> Inl ZeroDivisionError
   \<and> (?a + ?b = 0 \<longrightarrow> get_success_rate s = Inr 0)
   \<and> (?a + ?b \<noteq> 0 \<and> \<bar>real_of_int ?a / real_of_int (?a + ?b)\<bar> < FLOAT_OVERFLOW \<longrightarrow>
        get_success_rate s = Inr (real_of_int ?a / real_of_int (?a + ?b) * 100))
   \<and> (get_success_rate s = Inl e \<longrightarrow>
        e = OverflowError \<and> ?a + ?b \<noteq> 0
        \<and> FLOAT_OVERFLOW \<le> \<bar>real_of_int ?a / real_of_int (?a + ?b)\<bar>)"
    using names by (auto simp: get_success_rate_def py_truediv_def Let_def split: if_splits)
  show ?thesis
    using nonneg rest by blast
qed

theorem success_rate_total_witness:
  "get_success_rate \<lparr>total_messages = 10, successful_downloads = 3, failed_downloads = 1,
       skipped_messages = 0, summary_size_bytes = 0, duration_seconds = 1\<rparr> = Inr 75
   \<and> get_success_rate \<lparr>total_messages = 10, successful_downloads = 0, failed_downloads = 0,
       skipped_messages = 0, summary_size_bytes = 0, duration_seconds = 1\<rparr> = Inr 0"
  using success_rate_total [of "\<lparr>total_messages = 10, successful_downloads = 3, failed_downloads = 1,
       skipped_messages = 0, summary_size_bytes = 0, duration_seconds = 1\<rparr>"]
    success_rate_total [of "\<lparr>total_messages = 10, successful_downloads = 0, failed_downloads = 0,
       skipped_messages = 0, summary_size_bytes = 0, duration_seconds = 1\<rparr>"]
  by simp

section \<open>Properties of the media classifier\<close>






section \<open>Properties of the error handler\<close>

lemma counts_foldl:
  "error_count (foldl apply_handle_call h cs)
     = error_count h + int (length (filter (\<lambda>c. call_logger c \<and> counts_as_error c) cs))
   \<and> warnings_count (foldl apply_handle_call h cs)
     = warnings_count h + int (length (filter (\<lambda>c. call_logger c \<and> \<not> counts_as_error c) cs))"
  by (induction cs arbitrary: h)
     (auto simp: apply_handle_call_def handle_error_def counts_as_error_def Let_def)

lemma sentinel_iff:
  "0 \<le> error_count h \<Longrightarrow> 0 \<le> warnings_count h \<Longrightarrow>
   (get_summary h = no_errors_sentinel) = (error_count h = 0 \<and> warnings_count h = 0)"
  by (auto simp: get_summary_def no_errors_sentinel_def check_mark_def cross_mark_def
      warning_sign_def)

text \<open>
  Claim C9, amended. For every sequence of \<^verbatim>\<open>handle_error\<close> calls on a fresh handler,
  each call that is given a logger increments exactly one counter (the error counter when
  the critical flag is set or the severity of the classified record is ERROR, otherwise the
  warning counter), and a call without a logger changes no counter. The summary is the
  fixed sentinel if and only if both counters are zero; otherwise it is the comma-joined
  list of the non-zero counts, errors first, each with its singular or plural noun.
\<close>

theorem handler_law:
  "error_count (run_handle_calls cs)
      = int (length (filter (\<lambda>c. call_logger c \<and> counts_as_error c) cs))
   \<and> warnings_count (run_handle_calls cs)
      = int (length (filter (\<lambda>c. call_logger c \<and> \<not> counts_as_error c) cs))
   \<and> (call_logger c \<and> counts_as_error c \<longrightarrow>
        apply_handle_call (run_handle_calls cs) c
          = (run_handle_calls cs)\<lparr>error_count := error_count (run_handle_calls cs) + 1\<rparr>)
   \<and> (call_logger c \<and> \<not> counts_as_error c \<longrightarrow>
        apply_handle_call (run_handle_calls cs) c
          = (run_handle_calls cs)\<lparr>warnings_count := warnings_count (run_handle_calls cs) + 1\<rparr>)
   \<and> (\<not> call_logger c \<longrightarrow> apply_handle_call (run_handle_calls cs) c = run_handle_calls cs)
   \<and> ((get_summary (run_handle_calls cs) = no_errors_sentinel)
        = (error_count (run_handle_calls cs) = 0 \<and> warnings_count (run_handle_calls cs) = 0))
   \<and> (0 < error_count (run_handle_calls cs) \<and> warnings_count (run_handle_calls cs) = 0 \<longrightarrow>
        get_summary (run_handle_calls cs)
          = cross_mark @ '' '' @ str_int (error_count (run_handle_calls cs)) @ '' error''
            @ plural_s (error_count (run_handle_calls cs)))
   \<and> (error_count (run_handle_calls cs) = 0 \<and> 0 < warnings_count (run_handle_calls cs) \<longrightarrow>
        get_summary (run_handle_calls cs)
          = warning_sign @ '' '' @ str_int (warnings_count (run_handle_calls cs)) @ '' warning''
            @ plural_s (warnings_count (run_handle_calls cs)))
   \<and> (0 < error_count (run_handle_calls cs) \<and> 0 < warnings_count (run_handle_calls cs) \<longrightarrow>
        get_summary (run_handle_calls cs)
          = cross_mark @ '' '' @ str_int (error_count (run_handle_calls cs)) @ '' error''
            @ plural_s (error_count (run_handle_calls cs)) @ '', ''
            @ warning_sign @ '' '' @ str_int (warnings_count (run_handle_calls cs)) @ '' warning''
            @ plural_s (warnings_count (run_handle_calls cs)))
   \<and> plural_s 1 = [] \<and> (k \<noteq> 1 \<longrightarrow> plural_s k = ''s'')"
proof -
  let ?h = "run_handle_calls cs"
  have cnt: "error_count ?h = int (length (filter (\<lambda>c. call_logger c \<and> counts_as_error c) cs))"
    "warnings_count ?h = int (length (filter (\<lambda>c. call_logger c \<and> \<not> counts_as_error c) cs))"
    using counts_foldl [of new_error_handler cs]
    by (simp_all add: run_handle_calls_def new_error_handler_def)
  have nonneg: "0 \<le> error_count ?h" "0 \<le> warnings_count ?h"
    using cnt by simp_all
  have step: "(call_logger c \<and> counts_as_error c \<longrightarrow>
        apply_handle_call ?h c = ?h\<lparr>error_count := error_count ?h + 1\<rparr>)
   \<and> (call_logger c \<and> \<not> counts_as_error c \<longrightarrow>
        apply_handle_call ?h c = ?h\<lparr>warnings_count := warnings_count ?h + 1\<rparr>)
   \<and> (\<not> call_logger c \<longrightarrow> apply_handle_call ?h c = ?h)"
    by (simp add: apply_handle_call_def handle_error_def counts_as_error_def Let_def)
  have sent: "(get_summary ?h = no_errors_sentinel) = (error_count ?h = 0 \<and> warnings_count ?h = 0)"
    using nonneg by (rule sentinel_iff)
  have fmt: "(0 < error_count ?h \<and> warnings_count ?h = 0 \<longrightarrow>
        get_summary ?h = cross_mark @ '' '' @ str_int (error_count ?h) @ '' error''
            @ plural_s (error_count ?h))
   \<and> (error_count ?h = 0 \<and> 0 < warnings_count ?h \<longrightarrow>
        get_summary ?h = warning_sign @ '' '' @ str_int (warnings_count ?h) @ '' warning''
            @ plural_s (warnings_count ?h))
   \<and> (0 < error_count ?h \<and> 0 < warnings_count ?h \<longrightarrow>
        get_summary ?h = cross_mark @ '' '' @ str_int (error_count ?h) @ '' error''
            @ plural_s (error_count ?h) @ '', ''
            @ warning_sign @ '' '' @ str_int (warnings_count ?h) @ '' warning''
            @ plural_s (warnings_count ?h))"
    by (simp add: get_summary_def)
  have pl: "plural_s 1 = [] \<and> (k \<noteq> 1 \<longrightarrow> plural_s k = ''s'')"
    by (simp add: plural_s_def)
  show ?thesis
    using cnt step sent fmt pl by presburger
qed

theorem handler_law_witness:
  "error_count (run_handle_calls
      [\<lparr>call_exception = \<lparr>exc_class = TimeoutError, exc_type_name = ''TimeoutError''\<rparr>,
        call_message_id = Some 5, call_logger = True, call_critical = False\<rparr>,
       \<lparr>call_exception = \<lparr>exc_class = BadRequestError, exc_type_name = ''BadRequestError''\<rparr>,
        call_message_id = Some 6, call_logger = True, call_critical = False\<rparr>]) = 1
   \<and> warnings_count (run_handle_calls
      [\<lparr>call_exception = \<lparr>exc_class = TimeoutError, exc_type_name = ''TimeoutError''\<rparr>,
        call_message_id = Some 5, call_logger = True, call_critical = False\<rparr>,
       \<lparr>call_exception = \<lparr>exc_class = BadRequestError, exc_type_name = ''BadRequestError''\<rparr>,
        call_message_id = Some 6, call_logger = True, call_critical = False\<rparr>]) = 1
   \<and> error_count (apply_handle_call (run_handle_calls
      [\<lparr>call_exception = \<lparr>exc_class = TimeoutError, exc_type_name = ''TimeoutError''\<rparr>,
        call_message_id = Some 5, call_logger = True, call_critical = False\<rparr>,
       \<lparr>call_exception = \<lparr>exc_class = BadRequestError, exc_type_name = ''BadRequestError''\<rparr>,
        call_message_id = Some 6, call_logger = True, call_critical = False\<rparr>])
      \<lparr>call_exception = \<lparr>exc_class = TimeoutError, exc_type_name = ''TimeoutError''\<rparr>,
        call_message_id = Some 7, call_logger = True, call_critical = True\<rparr>) = 2
   \<and> get_summary (run_handle_calls
      [\<lparr>call_exception = \<lparr>exc_class = TimeoutError, exc_type_name = ''TimeoutError''\<rparr>,
        call_message_id = Some 5, call_logger = True, call_critical = False\<rparr>,
       \<lparr>call_exception = \<lparr>exc_class = BadRequestError, exc_type_name = ''BadRequestError''\<rparr>,
        call_message_id = Some 6, call_logger = True, call_critical = False\<rparr>])
      = cross_mark @ '' 1 error, '' @ warning_sign @ '' 1 warning''"
proof -
  let ?cs = "[\<lparr>call_exception = \<lparr>exc_class = TimeoutError, exc_type_name = ''TimeoutError''\<rparr>,
        call_message_id = Some 5, call_logger = True, call_critical = False\<rparr>,
       \<lparr>call_exception = \<lparr>exc_class = BadRequestError, exc_type_name = ''BadRequestError''\<rparr>,
        call_message_id = Some 6, call_logger = True, call_critical = False\<rparr>]"
  let ?c = "\<lparr>call_exception = \<lparr>exc_class = TimeoutError, exc_type_name = ''TimeoutError''\<rparr>,
        call_message_id = Some 7, call_logger = True, call_critical = True\<rparr>"
  have e: "error_count (run_handle_calls ?cs) = 1" and w: "warnings_count (run_handle_calls ?cs) = 1"
    by (simp_all add: run_handle_calls_def apply_handle_call_def handle_error_def
        new_error_handler_def from_exception_def)
  have c: "call_logger ?c \<and> counts_as_error ?c"
    by (simp add: counts_as_error_def)
  have s1: "str_int 1 = ''1''"
    by code_simp
  show ?thesis
    using handler_law [where cs = ?cs and c = ?c and k = 2] e w c s1
    by (simp add: plural_s_def)
qed

text \<open>
  Claim C9, as stated, fails: the counters are only touched under \<^verbatim>\<open>if logger:\<close>, and
  the parameter defaults to \<^verbatim>\<open>None\<close>. A call without a logger, even a critical one,
  increments nothing.
\<close>

theorem handler_without_logger_counterexample:
  "error_count (handle_error new_error_handler
      \<lparr>exc_class = BadRequestError, exc_type_name = ''BadRequestError''\<rparr> (Some 1) False True) = 0
   \<and> warnings_count (handle_error new_error_handler
      \<lparr>exc_class = BadRequestError, exc_type_name = ''BadRequestError''\<rparr> (Some 1) False True) = 0"
  by (simp add: handle_error_def new_error_handler_def)

section \<open>Properties of the download dispatcher\<close>

lemma only_exceptions_attempt:
  "only_exceptions sc \<Longrightarrow> k < MAX_RETRIES \<Longrightarrow> on_attempt sc k = Raises s e
     \<Longrightarrow> exc_class e \<noteq> NonException"
  unfolding only_exceptions_def list_all_iff
  by (drule bspec [where x = k]) auto

lemma only_exceptions_refetch:
  "only_exceptions sc \<Longrightarrow> k < MAX_RETRIES \<Longrightarrow> on_refetch sc k = RefetchRaises e
     \<Longrightarrow> exc_class e \<noteq> NonException"
  unfolding only_exceptions_def list_all_iff
  by (drule bspec [where x = k]) auto

lemma refetch_keeps_id_msg:
  "refetch_keeps_id sc i \<Longrightarrow> k < MAX_RETRIES \<Longrightarrow> on_refetch sc k = Refetched ms
     \<Longrightarrow> msg_id message = i \<Longrightarrow> msg_id (case ms of [] \<Rightarrow> message | m # _ \<Rightarrow> m) = i"
  unfolding refetch_keeps_id_def list_all_iff
  by (drule bspec [where x = k]) (auto split: list.splits)

lemma get_media_type_Inl:
  "get_media_type message = Inl e \<Longrightarrow> e = AttributeError"
  by (auto simp: get_media_type_def split: option.splits message_media.splits)

lemma try_body_Raise:
  "try_body ev message mt ff st = Raise e \<Longrightarrow> (\<exists>s. ev = Raises s e) \<or> e = AttributeError"
  by (cases ev)
     (auto simp: try_body_def Let_def dest: get_media_type_Inl
           split: option.splits sum.splits if_splits download_result.splits)

lemma try_body_BreakLoop:
  "try_body ev message mt ff st = BreakLoop st' \<Longrightarrow>
     failed_ids st' = failed_ids st"
  by (cases ev)
     (auto simp: try_body_def Let_def mark_downloaded_def
           split: option.splits sum.splits if_splits download_result.splits)

lemma failed_simps [simp]:
  "i \<in> set (failed_ids (dl_state (failed c i)))"
  "downloaded_ids (dl_state (failed c i)) = downloaded_ids (dl_state c)"
  "total_size_bytes (dl_state (failed c i)) = total_size_bytes (dl_state c)"
  "dl_state (handle c e i crit) = dl_state c"
  by (auto simp: failed_def mark_failed_def handle_def)

lemma failure_path_simps [simp]:
  "\<not> failure_path FilteredOut" "\<not> failure_path BodyDone" "failure_path RefetchFailed"
  "failure_path BadRequestBreak" "failure_path UnexpectedBreak" "failure_path LoopEnded"
  by (simp_all add: failure_path_def)

lemma loop_returns:
  "only_exceptions sc \<Longrightarrow> refetch_keeps_id sc i \<Longrightarrow> msg_id message = i \<Longrightarrow>
   (MAX_RETRIES \<le> retry \<longrightarrow> i \<in> set (failed_ids (dl_state c))) \<Longrightarrow>
   \<exists>p c'. download_media_loop sc mt ff retry message c = (Returns i p, c')
      \<and> (MAX_RETRIES \<le> retry \<longrightarrow> p = LoopEnded)
      \<and> (failure_path p \<longrightarrow> i \<in> set (failed_ids (dl_state c')))
      \<and> (\<not> failure_path p \<longrightarrow> failed_ids (dl_state c') = failed_ids (dl_state c))"
proof (induction sc mt ff retry message c rule: download_media_loop.induct)
  case (1 sc mt ff retry message c)
  note unfold = download_media_loop.simps [of sc mt ff retry message c]
  show ?case
  proof (cases "retry < MAX_RETRIES")
    case False
    then show ?thesis using "1.prems" by (simp add: unfold)
  next
    case lt: True
    show ?thesis
    proof (cases "try_body (on_attempt sc retry) message mt ff (dl_state c)")
      case ReturnId
      then show ?thesis using lt "1.prems" by (simp add: unfold)
    next
      case (BreakLoop st)
      then show ?thesis using lt "1.prems" try_body_BreakLoop [OF BreakLoop]
        by (simp add: unfold)
    next
      case (Raise e)
      have ne: "exc_class e \<noteq> NonException"
        using try_body_Raise [OF Raise] only_exceptions_attempt [OF "1.prems"(1) lt]
        by (auto simp: AttributeError_def)
      show ?thesis
      proof (cases "exc_class e")
        case FileReferenceExpiredError
        show ?thesis
        proof (cases "retry < MAX_RETRIES - 1")
          case more: True
          show ?thesis
          proof (cases "on_refetch sc retry")
            case (RefetchRaises re)
            have "exc_class re \<noteq> NonException"
              using only_exceptions_refetch [OF "1.prems"(1) lt RefetchRaises] .
            then show ?thesis
              using lt Raise FileReferenceExpiredError more RefetchRaises "1.prems"
              by (simp add: unfold Let_def)
          next
            case (Refetched ms)
            have id: "msg_id (case ms of [] \<Rightarrow> message | m # _ \<Rightarrow> m) = i"
              using refetch_keeps_id_msg [OF "1.prems"(2) lt Refetched "1.prems"(3)] .
            have IH: "\<exists>p c'. download_media_loop sc mt ff (retry + 1)
                        (case ms of [] \<Rightarrow> message | m # _ \<Rightarrow> m)
                        ((handle c e (msg_id message) False)
                           \<lparr>refetches := refetches (handle c e (msg_id message) False) + 1\<rparr>)
                      = (Returns i p, c')
                \<and> (MAX_RETRIES \<le> retry + 1 \<longrightarrow> p = LoopEnded)
                \<and> (failure_path p \<longrightarrow> i \<in> set (failed_ids (dl_state c')))
                \<and> (\<not> failure_path p \<longrightarrow> failed_ids (dl_state c')
                      = failed_ids (dl_state ((handle c e (msg_id message) False)
                           \<lparr>refetches := refetches (handle c e (msg_id message) False) + 1\<rparr>)))"
            proof -
              have "\<not> MAX_RETRIES \<le> retry + 1" using more by arith
              then show ?thesis
                using "1.IH"(1) [OF lt Raise FileReferenceExpiredError refl more refl Refetched
                    "1.prems"(1,2) id]
                by (simp add: handle_def)
            qed
            then show ?thesis
              using lt Raise FileReferenceExpiredError more Refetched
              by (auto simp: unfold Let_def)
          qed
        next
          case last: False
          have IH: "\<exists>p c'. download_media_loop sc mt ff (retry + 1) message
                        (failed (handle c e (msg_id message) False) (msg_id message))
                      = (Returns i p, c')
                \<and> (MAX_RETRIES \<le> retry + 1 \<longrightarrow> p = LoopEnded)
                \<and> (failure_path p \<longrightarrow> i \<in> set (failed_ids (dl_state c')))
                \<and> (\<not> failure_path p \<longrightarrow> failed_ids (dl_state c')
                      = failed_ids (dl_state (failed (handle c e (msg_id message) False) (msg_id message))))"
            using "1.IH"(2) [OF lt Raise FileReferenceExpiredError refl last "1.prems"(1,2,3)]
              "1.prems"(3)
            by simp
          then show ?thesis
            using lt Raise FileReferenceExpiredError last
            by (auto simp: unfold Let_def)
        qed
      next
        case TimeoutError
        let ?w = "wait_time retry (jitter sc retry)"
        let ?c1 = "(handle c e (msg_id message) False)\<lparr>wait_times := wait_times c @ [?w]\<rparr>"
        show ?thesis
        proof (cases "retry < MAX_RETRIES - 1")
          case more: True
          have "\<not> MAX_RETRIES \<le> retry + 1" using more by arith
          then have IH: "\<exists>p c'. download_media_loop sc mt ff (retry + 1) message
                        (?c1\<lparr>sleeps := sleeps ?c1 @ [?w]\<rparr>) = (Returns i p, c')
                \<and> (MAX_RETRIES \<le> retry + 1 \<longrightarrow> p = LoopEnded)
                \<and> (failure_path p \<longrightarrow> i \<in> set (failed_ids (dl_state c')))
                \<and> (\<not> failure_path p \<longrightarrow> failed_ids (dl_state c') = failed_ids (dl_state c))"
            using "1.IH"(3) [OF lt Raise TimeoutError refl refl more "1.prems"(1,2,3)]
            by (simp add: handle_def)
          then show ?thesis
            using lt Raise TimeoutError more
            by (auto simp: unfold Let_def)
        next
          case last: False
          have IH: "\<exists>p c'. download_media_loop sc mt ff (retry + 1) message
                        (failed ?c1 (msg_id message)) = (Returns i p, c')
                \<and> (MAX_RETRIES \<le> retry + 1 \<longrightarrow> p = LoopEnded)
                \<and> (failure_path p \<longrightarrow> i \<in> set (failed_ids (dl_state c')))"
            using "1.IH"(4) [OF lt Raise TimeoutError refl refl last "1.prems"(1,2,3)]
              "1.prems"(3)
            by auto
          have "MAX_RETRIES \<le> retry + 1" using last lt by arith
          then show ?thesis
            using IH lt Raise TimeoutError last
            by (auto simp: unfold Let_def)
        qed
      next
        case BadRequestError
        then show ?thesis using lt Raise "1.prems" by (simp add: unfold)
      next
        case OtherException
        then show ?thesis using lt Raise "1.prems" by (simp add: unfold)
      next
        case NonException
        then show ?thesis using ne by simp
      qed
    qed
  qed
qed

lemma try_body_reaches:
  "reaches_download message mt ff \<Longrightarrow> try_body (Raises s e) message mt ff st = Raise e"
  by (cases s)
     (auto simp: reaches_download_def try_body_def Let_def split: option.splits sum.splits)

lemma always_times_out_attempt:
  "always_times_out sc \<Longrightarrow> k < MAX_RETRIES \<Longrightarrow>
     \<exists>s e. on_attempt sc k = Raises s e \<and> exc_class e = TimeoutError"
  unfolding always_times_out_def list_all_iff
  by (drule bspec [where x = k]) (auto split: attempt_event.splits)

lemma jitter_in_range_at:
  "jitter_in_range sc \<Longrightarrow> k < MAX_RETRIES \<Longrightarrow> 0 \<le> jitter sc k \<and> jitter sc k < 1"
  unfolding jitter_in_range_def list_all_iff
  by (drule bspec [where x = k]) auto

lemma handle_simps [simp]:
  "sleeps (handle c e i crit) = sleeps c"
  "wait_times (handle c e i crit) = wait_times c"
  "refetches (handle c e i crit) = refetches c"
  "sleeps (failed c i) = sleeps c"
  "wait_times (failed c i) = wait_times c"
  "refetches (failed c i) = refetches c"
  by (simp_all add: handle_def failed_def)

text \<open>
  Claim C7. The waiting time computed when attempt \<open>k\<close> (counted from 0) times out is
  \<open>min 300 (2 ^ k * 5 + jitter)\<close>. When the message reaches the download, all three
  attempts time out and every jitter value lies in \<open>[0, 1)\<close>, the dispatcher computes the
  waiting times \<open>5 + j0\<close>, \<open>10 + j1\<close> and \<open>20 + j2\<close>, sleeps for the first two and retries,
  the waiting times are non-decreasing and at most 300, no refetch is made, and after the
  last attempt the function returns the message id with the id in \<^verbatim>\<open>failed_ids\<close>.
  The waiting times are real numbers here, and the jitter is any value of its range: the
  distribution of \<^verbatim>\<open>random.uniform\<close> is not part of the model.
\<close>

theorem timeout_backoff:
  assumes "always_times_out sc" and "jitter_in_range sc" and "reaches_download message mt ff"
  shows "\<exists>c'. download_media sc message mt ff c sem = (Returns (msg_id message) LoopEnded, c')
     \<and> msg_id message \<in> set (failed_ids (dl_state c'))
     \<and> wait_times c' = wait_times c @ map (\<lambda>k. wait_time k (jitter sc k)) [0, 1, 2]
     \<and> sleeps c' = sleeps c @ map (\<lambda>k. wait_time k (jitter sc k)) [0, 1]
     \<and> refetches c' = refetches c
     \<and> (\<forall>k j. wait_time k j = min 300 (2 ^ k * 5 + j))
     \<and> wait_time 0 (jitter sc 0) = 5 + jitter sc 0
     \<and> wait_time 1 (jitter sc 1) = 10 + jitter sc 1
     \<and> wait_time 2 (jitter sc 2) = 20 + jitter sc 2
     \<and> sorted (map (\<lambda>k. wait_time k (jitter sc k)) [0, 1, 2])
     \<and> list_all (\<lambda>w. w \<le> MAX_RETRY_DELAY) (map (\<lambda>k. wait_time k (jitter sc k)) [0, 1, 2])"
proof -
  obtain s0 e0 where a0: "on_attempt sc 0 = Raises s0 e0" "exc_class e0 = TimeoutError"
    using always_times_out_attempt [OF assms(1), of 0] by (auto simp: MAX_RETRIES_def)
  obtain s1 e1 where a1: "on_attempt sc (Suc 0) = Raises s1 e1" "exc_class e1 = TimeoutError"
    using always_times_out_attempt [OF assms(1), of "Suc 0"] by (auto simp: MAX_RETRIES_def)
  obtain s2 e2 where a2: "on_attempt sc (Suc (Suc 0)) = Raises s2 e2" "exc_class e2 = TimeoutError"
    using always_times_out_attempt [OF assms(1), of "Suc (Suc 0)"] by (auto simp: MAX_RETRIES_def)
  have j: "0 \<le> jitter sc 0" "jitter sc 0 < 1" "0 \<le> jitter sc 1" "jitter sc 1 < 1"
    "0 \<le> jitter sc 2" "jitter sc 2 < 1"
    using jitter_in_range_at [OF assms(2), of 0] jitter_in_range_at [OF assms(2), of 1]
      jitter_in_range_at [OF assms(2), of 2]
    by (simp_all add: MAX_RETRIES_def)
  have w: "wait_time 0 (jitter sc 0) = 5 + jitter sc 0"
    "wait_time 1 (jitter sc 1) = 10 + jitter sc 1"
    "wait_time 2 (jitter sc 2) = 20 + jitter sc 2"
    using j by (simp_all add: wait_time_def MAX_RETRY_DELAY_def INITIAL_RETRY_DELAY_def)
  have srt: "sorted (map (\<lambda>k. wait_time k (jitter sc k)) [0, 1, 2])"
    using j w by simp
  have bnd: "list_all (\<lambda>w. w \<le> MAX_RETRY_DELAY) (map (\<lambda>k. wait_time k (jitter sc k)) [0, 1, 2])"
    by (simp add: wait_time_def)
  have tb: "try_body (Raises s e) message mt ff st = Raise e" for s e st
    using assms(3) by (rule try_body_reaches)
  have run: "\<exists>c'. download_media_loop sc mt ff 0 message c = (Returns (msg_id message) LoopEnded, c')
     \<and> msg_id message \<in> set (failed_ids (dl_state c'))
     \<and> wait_times c' = wait_times c @ map (\<lambda>k. wait_time k (jitter sc k)) [0, 1, 2]
     \<and> sleeps c' = sleeps c @ map (\<lambda>k. wait_time k (jitter sc k)) [0, 1]
     \<and> refetches c' = refetches c"
    using a0 a1 a2 tb
    by (simp add: download_media_loop.simps MAX_RETRIES_def Let_def numeral_2_eq_2)
  have formula: "\<forall>k j. wait_time k j = min 300 (2 ^ k * 5 + j)"
    by (simp add: wait_time_def MAX_RETRY_DELAY_def INITIAL_RETRY_DELAY_def)
  show ?thesis
    using run w srt bnd formula
    by (simp add: download_media_def download_media_internal_def)
qed

lemma loop_propagates:
  "download_media_loop sc mt ff retry message c = (Propagates e, c') \<Longrightarrow>
   exc_class e = NonException"
proof (induction sc mt ff retry message c rule: download_media_loop.induct)
  case (1 sc mt ff retry message c)
  note unfold = download_media_loop.simps [of sc mt ff retry message c]
  show ?case
  proof (cases "retry < MAX_RETRIES")
    case False
    then show ?thesis using "1.prems" by (simp add: unfold)
  next
    case lt: True
    show ?thesis
    proof (cases "try_body (on_attempt sc retry) message mt ff (dl_state c)")
      case ReturnId
      then show ?thesis using lt "1.prems" by (simp add: unfold)
    next
      case (BreakLoop st)
      then show ?thesis using lt "1.prems" by (simp add: unfold)
    next
      case (Raise x)
      show ?thesis
      proof (cases "exc_class x")
        case FileReferenceExpiredError
        show ?thesis
        proof (cases "retry < MAX_RETRIES - 1")
          case more: True
          show ?thesis
          proof (cases "on_refetch sc retry")
            case (RefetchRaises re)
            then show ?thesis
              using lt Raise FileReferenceExpiredError more "1.prems"
              by (auto simp: unfold Let_def split: if_splits)
          next
            case (Refetched ms)
            show ?thesis
              using "1.IH"(1) [OF lt Raise FileReferenceExpiredError refl more refl Refetched]
                lt Raise FileReferenceExpiredError more Refetched "1.prems"
              by (simp add: unfold Let_def)
          qed
        next
          case last: False
          show ?thesis
            using "1.IH"(2) [OF lt Raise FileReferenceExpiredError refl last]
              lt Raise FileReferenceExpiredError last "1.prems"
            by (simp add: unfold Let_def)
        qed
      next
        case TimeoutError
        show ?thesis
        proof (cases "retry < MAX_RETRIES - 1")
          case more: True
          show ?thesis
            using "1.IH"(3) [OF lt Raise TimeoutError refl refl more]
              lt Raise TimeoutError more "1.prems"
            by (simp add: unfold Let_def)
        next
          case last: False
          show ?thesis
            using "1.IH"(4) [OF lt Raise TimeoutError refl refl last]
              lt Raise TimeoutError last "1.prems"
            by (simp add: unfold Let_def)
        qed
      next
        case BadRequestError
        then show ?thesis using lt Raise "1.prems" by (simp add: unfold)
      next
        case OtherException
        then show ?thesis using lt Raise "1.prems" by (simp add: unfold)
      next
        case NonException
        then show ?thesis using lt Raise "1.prems" by (simp add: unfold)
      qed
    qed
  qed
qed

lemma failed_dl [simp]:
  "downloaded_ids (dl_state (failed c i)) = downloaded_ids (dl_state c)"
  "total_size_bytes (dl_state (failed c i)) = total_size_bytes (dl_state c)"
  by (simp_all add: failed_def mark_failed_def)

lemma loop_never_done:
  assumes ar: "\<forall>k<MAX_RETRIES. \<forall>m st. P m \<longrightarrow> (\<exists>e. try_body (on_attempt sc k) m mt ff st = Raise e)"
    and rf: "\<forall>k<MAX_RETRIES. \<forall>m ms. on_refetch sc k = Refetched (m # ms) \<longrightarrow> P m"
    and pm: "P message"
  shows "fst (download_media_loop sc mt ff retry message c) \<noteq> Returns j FilteredOut
     \<and> fst (download_media_loop sc mt ff retry message c) \<noteq> Returns j BodyDone
     \<and> downloaded_ids (dl_state (snd (download_media_loop sc mt ff retry message c)))
         = downloaded_ids (dl_state c)
     \<and> total_size_bytes (dl_state (snd (download_media_loop sc mt ff retry message c)))
         = total_size_bytes (dl_state c)"
  using ar rf pm
proof (induction sc mt ff retry message c rule: download_media_loop.induct)
  case (1 sc mt ff retry message c)
  note unfold = download_media_loop.simps [of sc mt ff retry message c]
  show ?case
  proof (cases "retry < MAX_RETRIES")
    case False
    then show ?thesis by (simp add: unfold)
  next
    case lt: True
    obtain x where Raise: "try_body (on_attempt sc retry) message mt ff (dl_state c) = Raise x"
      using "1.prems" lt by blast
    note ar' = "1.prems"(1) and rf' = "1.prems"(2)
    show ?thesis
    proof (cases "exc_class x")
      case FileReferenceExpiredError
      show ?thesis
      proof (cases "retry < MAX_RETRIES - 1")
        case more: True
        show ?thesis
        proof (cases "on_refetch sc retry")
          case (RefetchRaises re)
          then show ?thesis
            using lt Raise FileReferenceExpiredError more
            by (simp add: unfold Let_def handle_def)
        next
          case (Refetched ms)
          have pn: "P (case ms of [] \<Rightarrow> message | m # _ \<Rightarrow> m)"
            using rf' lt Refetched "1.prems"(3) by (cases ms) auto
          show ?thesis
            using "1.IH"(1) [OF lt Raise FileReferenceExpiredError refl more refl Refetched ar' rf' pn]
              lt Raise FileReferenceExpiredError more Refetched
            by (simp add: unfold Let_def handle_def)
        qed
      next
        case last: False
        show ?thesis
          using "1.IH"(2) [OF lt Raise FileReferenceExpiredError refl last "1.prems"]
            lt Raise FileReferenceExpiredError last
          by (simp add: unfold Let_def handle_def)
      qed
    next
      case TimeoutError
      show ?thesis
      proof (cases "retry < MAX_RETRIES - 1")
        case more: True
        show ?thesis
          using "1.IH"(3) [OF lt Raise TimeoutError refl refl more "1.prems"]
            lt Raise TimeoutError more
          by (simp add: unfold Let_def handle_def)
      next
        case last: False
        show ?thesis
          using "1.IH"(4) [OF lt Raise TimeoutError refl refl last "1.prems"]
            lt Raise TimeoutError last
          by (simp add: unfold Let_def handle_def)
      qed
    next
      case BadRequestError
      then show ?thesis using lt Raise by (simp add: unfold handle_def)
    next
      case OtherException
      then show ?thesis using lt Raise by (simp add: unfold handle_def)
    next
      case NonException
      then show ?thesis using lt Raise by (simp add: unfold)
    qed
  qed
qed

lemma try_body_classification:
  "try_body (Raises Classification e) message mt ff st = Raise e"
  by (simp add: try_body_def)

lemma loop_step:
  assumes lt: "retry < MAX_RETRIES"
  shows
    "try_body (on_attempt sc retry) message mt ff (dl_state c) = ReturnId \<Longrightarrow>
       download_media_loop sc mt ff retry message c = (Returns (msg_id message) FilteredOut, c)"
    "try_body (on_attempt sc retry) message mt ff (dl_state c) = BreakLoop st \<Longrightarrow>
       download_media_loop sc mt ff retry message c
         = (Returns (msg_id message) BodyDone, c\<lparr>dl_state := st\<rparr>)"
    "try_body (on_attempt sc retry) message mt ff (dl_state c) = Raise e \<Longrightarrow>
     exc_class e = NonException \<Longrightarrow>
       download_media_loop sc mt ff retry message c = (Propagates e, c)"
    "try_body (on_attempt sc retry) message mt ff (dl_state c) = Raise e \<Longrightarrow>
     exc_class e = BadRequestError \<Longrightarrow>
       download_media_loop sc mt ff retry message c
         = (Returns (msg_id message) BadRequestBreak,
            failed (handle c e (msg_id message) False) (msg_id message))"
    "try_body (on_attempt sc retry) message mt ff (dl_state c) = Raise e \<Longrightarrow>
     exc_class e = OtherException \<Longrightarrow>
       download_media_loop sc mt ff retry message c
         = (Returns (msg_id message) UnexpectedBreak,
            failed (handle c e (msg_id message) True) (msg_id message))"
  using lt by (simp_all add: download_media_loop.simps [of sc mt ff retry message c])

lemma loop_step_last:
  assumes "retry = MAX_RETRIES - 1"
    and "try_body (on_attempt sc retry) message mt ff (dl_state c) = Raise e"
    and "exc_class e = TimeoutError \<or> exc_class e = FileReferenceExpiredError"
  shows "fst (download_media_loop sc mt ff retry message c) = Returns (msg_id message) LoopEnded
     \<and> msg_id message \<in> set (failed_ids (dl_state (snd (download_media_loop sc mt ff retry message c))))
     \<and> sleeps (snd (download_media_loop sc mt ff retry message c)) = sleeps c
     \<and> refetches (snd (download_media_loop sc mt ff retry message c)) = refetches c"
proof -
  have a: "retry < MAX_RETRIES" "\<not> retry < MAX_RETRIES - 1" "\<not> retry + 1 < MAX_RETRIES"
    using assms(1) by (simp_all add: MAX_RETRIES_def)
  have stop: "download_media_loop sc mt ff (Suc retry) message c2
      = (Returns (msg_id message) LoopEnded, c2)" for c2
    using a(3) by (subst download_media_loop.simps) simp
  show ?thesis
    using a assms(2,3) stop
    by (auto simp: download_media_loop.simps [of sc mt ff retry message c] Let_def)
qed

lemma loop_step_refetch:
  assumes "retry < MAX_RETRIES - 1"
    and "try_body (on_attempt sc retry) message mt ff (dl_state c) = Raise e"
    and "exc_class e = FileReferenceExpiredError"
  shows
    "on_refetch sc retry = RefetchRaises re \<Longrightarrow> exc_class re \<noteq> NonException \<Longrightarrow>
       download_media_loop sc mt ff retry message c
         = (Returns (msg_id message) RefetchFailed,
            failed (handle ((handle c e (msg_id message) False)
                      \<lparr>refetches := refetches c + 1\<rparr>) re (msg_id message) False)
              (msg_id message))"
    "on_refetch sc retry = RefetchRaises re \<Longrightarrow> exc_class re = NonException \<Longrightarrow>
       fst (download_media_loop sc mt ff retry message c) = Propagates re"
    "on_refetch sc retry = Refetched ms \<Longrightarrow>
       download_media_loop sc mt ff retry message c
         = download_media_loop sc mt ff (retry + 1) (case ms of [] \<Rightarrow> message | m # _ \<Rightarrow> m)
             ((handle c e (msg_id message) False)\<lparr>refetches := refetches c + 1\<rparr>)"
proof -
  have lt: "retry < MAX_RETRIES" using assms(1) by simp
  note unfold = download_media_loop.simps [of sc mt ff retry message c]
  show "on_refetch sc retry = RefetchRaises re \<Longrightarrow> exc_class re \<noteq> NonException \<Longrightarrow>
       download_media_loop sc mt ff retry message c
         = (Returns (msg_id message) RefetchFailed,
            failed (handle ((handle c e (msg_id message) False)
                      \<lparr>refetches := refetches c + 1\<rparr>) re (msg_id message) False)
              (msg_id message))"
    using assms lt by (simp add: unfold Let_def)
  show "on_refetch sc retry = RefetchRaises re \<Longrightarrow> exc_class re = NonException \<Longrightarrow>
       fst (download_media_loop sc mt ff retry message c) = Propagates re"
    using assms lt by (simp add: unfold Let_def)
  show "on_refetch sc retry = Refetched ms \<Longrightarrow>
       download_media_loop sc mt ff retry message c
         = download_media_loop sc mt ff (retry + 1) (case ms of [] \<Rightarrow> message | m # _ \<Rightarrow> m)
             ((handle c e (msg_id message) False)\<lparr>refetches := refetches c + 1\<rparr>)"
    using assms lt by (simp add: unfold Let_def)
qed

lemma loop_step_timeout:
  assumes "retry < MAX_RETRIES - 1"
    and "try_body (on_attempt sc retry) message mt ff (dl_state c) = Raise e"
    and "exc_class e = TimeoutError"
  shows "download_media_loop sc mt ff retry message c
         = download_media_loop sc mt ff (retry + 1) message
             ((handle c e (msg_id message) False)
                \<lparr>wait_times := wait_times c @ [wait_time retry (jitter sc retry)],
                 sleeps := sleeps c @ [wait_time retry (jitter sc retry)]\<rparr>)"
proof -
  have lt: "retry < MAX_RETRIES" using assms(1) by simp
  show ?thesis
    using assms lt
    by (simp add: download_media_loop.simps [of sc mt ff retry message c] Let_def)
qed

lemma c1_returns:
  "only_exceptions sc \<and> refetch_keeps_id sc (msg_id message) \<longrightarrow>
      (\<exists>p c'. download_media sc message mt ff c sem = (Returns (msg_id message) p, c')
         \<and> (failure_path p \<longrightarrow> msg_id message \<in> set (failed_ids (dl_state c')))
         \<and> (\<not> failure_path p \<longrightarrow> failed_ids (dl_state c') = failed_ids (dl_state c)))"
proof
  assume a: "only_exceptions sc \<and> refetch_keeps_id sc (msg_id message)"
  have "MAX_RETRIES \<le> 0 \<longrightarrow> msg_id message \<in> set (failed_ids (dl_state c))"
    by (simp add: MAX_RETRIES_def)
  from loop_returns [OF conjunct1 [OF a] conjunct2 [OF a] refl this, of mt ff]
  show "\<exists>p c'. download_media sc message mt ff c sem = (Returns (msg_id message) p, c')
         \<and> (failure_path p \<longrightarrow> msg_id message \<in> set (failed_ids (dl_state c')))
         \<and> (\<not> failure_path p \<longrightarrow> failed_ids (dl_state c') = failed_ids (dl_state c))"
    by (auto simp: download_media_def download_media_internal_def)
qed

lemma c1_never_completes:
  "only_exceptions sc \<and> refetch_keeps_id sc (msg_id message)
     \<and> reaches_download message mt ff
     \<and> (\<forall>k<MAX_RETRIES. \<exists>s x. on_attempt sc k = Raises s x)
     \<and> (\<forall>k<MAX_RETRIES. \<forall>m ms. on_refetch sc k = Refetched (m # ms)
            \<longrightarrow> reaches_download m mt ff) \<longrightarrow>
      (\<exists>p c'. download_media sc message mt ff c sem = (Returns (msg_id message) p, c')
         \<and> failure_path p \<and> msg_id message \<in> set (failed_ids (dl_state c'))
         \<and> downloaded_ids (dl_state c') = downloaded_ids (dl_state c)
         \<and> total_size_bytes (dl_state c') = total_size_bytes (dl_state c))"
proof
  assume a: "only_exceptions sc \<and> refetch_keeps_id sc (msg_id message)
     \<and> reaches_download message mt ff
     \<and> (\<forall>k<MAX_RETRIES. \<exists>s x. on_attempt sc k = Raises s x)
     \<and> (\<forall>k<MAX_RETRIES. \<forall>m ms. on_refetch sc k = Refetched (m # ms)
            \<longrightarrow> reaches_download m mt ff)"
  have ar: "\<forall>k<MAX_RETRIES. \<forall>m st. reaches_download m mt ff
      \<longrightarrow> (\<exists>x. try_body (on_attempt sc k) m mt ff st = Raise x)"
  proof (intro allI impI)
    fix k m st
    assume "k < MAX_RETRIES" and r: "reaches_download m mt ff"
    then obtain s x where "on_attempt sc k = Raises s x" using a by blast
    then show "\<exists>x. try_body (on_attempt sc k) m mt ff st = Raise x"
      using try_body_reaches [OF r] by simp
  qed
  have rf: "\<forall>k<MAX_RETRIES. \<forall>m ms. on_refetch sc k = Refetched (m # ms)
      \<longrightarrow> reaches_download m mt ff"
    using a by blast
  have pm: "reaches_download message mt ff" using a by blast
  from a c1_returns [of sc message mt ff c sem]
  obtain p c' where r: "download_media sc message mt ff c sem = (Returns (msg_id message) p, c')"
    and f: "failure_path p \<longrightarrow> msg_id message \<in> set (failed_ids (dl_state c'))"
    by blast
  have l: "download_media_loop sc mt ff 0 message c = (Returns (msg_id message) p, c')"
    using r by (simp add: download_media_def download_media_internal_def)
  from loop_never_done [where P = "\<lambda>m. reaches_download m mt ff", OF ar rf pm,
      of 0 c "msg_id message"] l
  have nd: "p \<noteq> FilteredOut" "p \<noteq> BodyDone"
    "downloaded_ids (dl_state c') = downloaded_ids (dl_state c)"
    "total_size_bytes (dl_state c') = total_size_bytes (dl_state c)"
    by auto
  have "failure_path p"
    using nd(1,2) by (cases p) simp_all
  then show "\<exists>p c'. download_media sc message mt ff c sem = (Returns (msg_id message) p, c')
         \<and> failure_path p \<and> msg_id message \<in> set (failed_ids (dl_state c'))
         \<and> downloaded_ids (dl_state c') = downloaded_ids (dl_state c)
         \<and> total_size_bytes (dl_state c') = total_size_bytes (dl_state c)"
    using r f nd(3,4) by blast
qed

lemma c1_propagates:
  "fst (download_media sc message mt ff c sem) = Propagates e \<longrightarrow> exc_class e = NonException"
proof
  assume "fst (download_media sc message mt ff c sem) = Propagates e"
  then obtain c' where "download_media_loop sc mt ff 0 message c = (Propagates e, c')"
    by (cases "download_media_loop sc mt ff 0 message c")
       (simp add: download_media_def download_media_internal_def)
  then show "exc_class e = NonException" by (rule loop_propagates)
qed

lemma c1_loop: "download_media sc message mt ff c sem = download_media_loop sc mt ff 0 message c"
  by (simp add: download_media_def download_media_internal_def)

lemma c1_reaches:
  "reaches_download message mt ff \<longrightarrow> try_body (Raises s e) message mt ff st = Raise e"
  by (simp add: try_body_reaches)

lemma c1_filtered:
  "retry < MAX_RETRIES \<and> try_body (on_attempt sc retry) message mt ff (dl_state c) = ReturnId \<longrightarrow>
     download_media_loop sc mt ff retry message c = (Returns (msg_id message) FilteredOut, c)"
  by (simp add: loop_step)

lemma c1_done:
  "retry < MAX_RETRIES \<and> try_body (on_attempt sc retry) message mt ff (dl_state c) = BreakLoop st'
     \<longrightarrow> download_media_loop sc mt ff retry message c
           = (Returns (msg_id message) BodyDone, c\<lparr>dl_state := st'\<rparr>)
         \<and> failed_ids st' = failed_ids (dl_state c)"
  using try_body_BreakLoop [of "on_attempt sc retry" message mt ff "dl_state c" st']
  by (simp add: loop_step)

lemma c1_non_exception:
  "retry < MAX_RETRIES \<and> try_body (on_attempt sc retry) message mt ff (dl_state c) = Raise x
     \<and> exc_class x = NonException \<longrightarrow>
     download_media_loop sc mt ff retry message c = (Propagates x, c)"
  by (simp add: loop_step)

lemma c1_bad_request:
  "retry < MAX_RETRIES \<and> try_body (on_attempt sc retry) message mt ff (dl_state c) = Raise x
     \<and> exc_class x = BadRequestError \<longrightarrow>
     (\<exists>c'. download_media_loop sc mt ff retry message c
              = (Returns (msg_id message) BadRequestBreak, c')
        \<and> msg_id message \<in> set (failed_ids (dl_state c'))
        \<and> downloaded_ids (dl_state c') = downloaded_ids (dl_state c)
        \<and> handler c' = map_option (\<lambda>h. handle_error h x (Some (msg_id message)) True False)
                          (handler c)
        \<and> sleeps c' = sleeps c \<and> refetches c' = refetches c)"
  by (auto simp: loop_step) (simp_all add: failed_def handle_def)

lemma c1_unexpected:
  "retry < MAX_RETRIES \<and> try_body (on_attempt sc retry) message mt ff (dl_state c) = Raise x
     \<and> exc_class x = OtherException \<longrightarrow>
     (\<exists>c'. download_media_loop sc mt ff retry message c
              = (Returns (msg_id message) UnexpectedBreak, c')
        \<and> msg_id message \<in> set (failed_ids (dl_state c'))
        \<and> downloaded_ids (dl_state c') = downloaded_ids (dl_state c)
        \<and> handler c' = map_option (\<lambda>h. handle_error h x (Some (msg_id message)) True True)
                          (handler c)
        \<and> sleeps c' = sleeps c \<and> refetches c' = refetches c)"
  by (auto simp: loop_step) (simp_all add: failed_def handle_def)

lemma c1_last:
  "retry = MAX_RETRIES - 1 \<and> try_body (on_attempt sc retry) message mt ff (dl_state c) = Raise x
     \<and> (exc_class x = TimeoutError \<or> exc_class x = FileReferenceExpiredError) \<longrightarrow>
     fst (download_media_loop sc mt ff retry message c) = Returns (msg_id message) LoopEnded
     \<and> msg_id message
          \<in> set (failed_ids (dl_state (snd (download_media_loop sc mt ff retry message c))))
     \<and> sleeps (snd (download_media_loop sc mt ff retry message c)) = sleeps c
     \<and> refetches (snd (download_media_loop sc mt ff retry message c)) = refetches c"
  using loop_step_last [of retry sc message mt ff c x] by blast

lemma c1_refetch_failed:
  "retry < MAX_RETRIES - 1 \<and> try_body (on_attempt sc retry) message mt ff (dl_state c) = Raise x
     \<and> exc_class x = FileReferenceExpiredError \<and> on_refetch sc retry = RefetchRaises re
     \<and> exc_class re \<noteq> NonException \<longrightarrow>
     (\<exists>c'. download_media_loop sc mt ff retry message c
              = (Returns (msg_id message) RefetchFailed, c')
        \<and> msg_id message \<in> set (failed_ids (dl_state c'))
        \<and> downloaded_ids (dl_state c') = downloaded_ids (dl_state c)
        \<and> refetches c' = refetches c + 1)"
proof
  assume a: "retry < MAX_RETRIES - 1
     \<and> try_body (on_attempt sc retry) message mt ff (dl_state c) = Raise x
     \<and> exc_class x = FileReferenceExpiredError \<and> on_refetch sc retry = RefetchRaises re
     \<and> exc_class re \<noteq> NonException"
  then have "download_media_loop sc mt ff retry message c
         = (Returns (msg_id message) RefetchFailed,
            failed (handle ((handle c x (msg_id message) False)
                      \<lparr>refetches := refetches c + 1\<rparr>) re (msg_id message) False)
              (msg_id message))"
    using loop_step_refetch(1) [of retry sc message mt ff c x re] by blast
  then show "\<exists>c'. download_media_loop sc mt ff retry message c
              = (Returns (msg_id message) RefetchFailed, c')
        \<and> msg_id message \<in> set (failed_ids (dl_state c'))
        \<and> downloaded_ids (dl_state c') = downloaded_ids (dl_state c)
        \<and> refetches c' = refetches c + 1"
    by (simp add: handle_def)
qed

lemma c1_refetch_propagates:
  "retry < MAX_RETRIES - 1 \<and> try_body (on_attempt sc retry) message mt ff (dl_state c) = Raise x
     \<and> exc_class x = FileReferenceExpiredError \<and> on_refetch sc retry = RefetchRaises re
     \<and> exc_class re = NonException \<longrightarrow>
     fst (download_media_loop sc mt ff retry message c) = Propagates re"
  using loop_step_refetch(2) [of retry sc message mt ff c x re] by blast

lemma c1_refetch_retry:
  "retry < MAX_RETRIES - 1 \<and> try_body (on_attempt sc retry) message mt ff (dl_state c) = Raise x
     \<and> exc_class x = FileReferenceExpiredError \<and> on_refetch sc retry = Refetched ms \<longrightarrow>
     (\<exists>c'. download_media_loop sc mt ff retry message c
              = download_media_loop sc mt ff (retry + 1)
                  (case ms of [] \<Rightarrow> message | m # _ \<Rightarrow> m) c'
        \<and> dl_state c' = dl_state c \<and> sleeps c' = sleeps c
        \<and> refetches c' = refetches c + 1)"
proof
  assume a: "retry < MAX_RETRIES - 1
     \<and> try_body (on_attempt sc retry) message mt ff (dl_state c) = Raise x
     \<and> exc_class x = FileReferenceExpiredError \<and> on_refetch sc retry = Refetched ms"
  then have "download_media_loop sc mt ff retry message c
         = download_media_loop sc mt ff (retry + 1) (case ms of [] \<Rightarrow> message | m # _ \<Rightarrow> m)
             ((handle c x (msg_id message) False)\<lparr>refetches := refetches c + 1\<rparr>)"
    using loop_step_refetch(3) [of retry sc message mt ff c x ms] by blast
  moreover have "dl_state ((handle c x (msg_id message) False)\<lparr>refetches := refetches c + 1\<rparr>)
      = dl_state c" by (simp add: handle_def)
  ultimately show "\<exists>c'. download_media_loop sc mt ff retry message c
              = download_media_loop sc mt ff (retry + 1)
                  (case ms of [] \<Rightarrow> message | m # _ \<Rightarrow> m) c'
        \<and> dl_state c' = dl_state c \<and> sleeps c' = sleeps c
        \<and> refetches c' = refetches c + 1"
    by (intro exI [of _ "(handle c x (msg_id message) False)\<lparr>refetches := refetches c + 1\<rparr>"])
       simp
qed

lemma c1_timeout_retry:
  "retry < MAX_RETRIES - 1 \<and> try_body (on_attempt sc retry) message mt ff (dl_state c) = Raise x
     \<and> exc_class x = TimeoutError \<longrightarrow>
     (\<exists>c'. download_media_loop sc mt ff retry message c
              = download_media_loop sc mt ff (retry + 1) message c'
        \<and> dl_state c' = dl_state c
        \<and> sleeps c' = sleeps c @ [wait_time retry (jitter sc retry)]
        \<and> refetches c' = refetches c)"
proof
  assume a: "retry < MAX_RETRIES - 1
     \<and> try_body (on_attempt sc retry) message mt ff (dl_state c) = Raise x
     \<and> exc_class x = TimeoutError"
  then have "download_media_loop sc mt ff retry message c
         = download_media_loop sc mt ff (retry + 1) message
             ((handle c x (msg_id message) False)
                \<lparr>wait_times := wait_times c @ [wait_time retry (jitter sc retry)],
                 sleeps := sleeps c @ [wait_time retry (jitter sc retry)]\<rparr>)"
    using loop_step_timeout [of retry sc message mt ff c x] by blast
  then show "\<exists>c'. download_media_loop sc mt ff retry message c
              = download_media_loop sc mt ff (retry + 1) message c'
        \<and> dl_state c' = dl_state c
        \<and> sleeps c' = sleeps c @ [wait_time retry (jitter sc retry)]
        \<and> refetches c' = refetches c"
    by (intro exI [of _ "(handle c x (msg_id message) False)
                \<lparr>wait_times := wait_times c @ [wait_time retry (jitter sc retry)],
                 sleeps := sleeps c @ [wait_time retry (jitter sc retry)]\<rparr>"])
       (simp add: handle_def)
qed

text \<open>
  Claim C1, amended. For every message and every script of the outside world in which each
  exception raised during classification, path resolution, download, reconciliation or
  refetch derives from \<^verbatim>\<open>Exception\<close>, and in which a refetch by id answers with the
  message of that id, the dispatcher returns the id of the message, on whatever path it
  leaves: a filtered message, a finished \<^verbatim>\<open>try\<close> block, or a terminal failure. It
  propagates nothing then; on every failure path the id is in \<^verbatim>\<open>failed_ids\<close>
  afterwards, and on the other paths \<^verbatim>\<open>failed_ids\<close> is unchanged. An exception that
  leaves the dispatcher, under whatever script, does not derive from \<^verbatim>\<open>Exception\<close>.

  The failure paths are tied to the events. When the message and every refetched message
  pass the filters and every attempt raises, the dispatcher leaves on a failure path, the
  id is in \<^verbatim>\<open>failed_ids\<close>, and no download is recorded. An exception raised during
  classification, or at any stage for a message that passes the filters, is the exception
  the clauses see. Then, attempt by attempt (\<open>retry\<close> counted from 0, below 3):
  a filtered message returns the id and leaves the objects alone; a finished \<^verbatim>\<open>try\<close>
  block returns the id with the state of the block and the same \<^verbatim>\<open>failed_ids\<close>; a
  non-\<^verbatim>\<open>Exception\<close> leaves as it is, with nothing recorded; a bad request and an
  unexpected exception each mark the id failed, report to the error handler (the second as
  critical) and return the id without a sleep or a refetch; a timeout or an expired file
  reference on the last attempt marks the id failed and returns it without a sleep or a
  refetch; an expired file reference before the last attempt makes one refetch, whose own
  exception marks the id failed and returns it (or leaves, when it does not derive from
  \<^verbatim>\<open>Exception\<close>), and whose answer is the message of the next attempt; a timeout
  before the last attempt sleeps for the waiting time and goes on to the next attempt.
\<close>

theorem dispatcher_returns_id:
  "(only_exceptions sc \<and> refetch_keeps_id sc (msg_id message) \<longrightarrow>
      (\<exists>p c'. download_media sc message mt ff c sem = (Returns (msg_id message) p, c')
         \<and> (failure_path p \<longrightarrow> msg_id message \<in> set (failed_ids (dl_state c')))
         \<and> (\<not> failure_path p \<longrightarrow> failed_ids (dl_state c') = failed_ids (dl_state c))))
   \<and> (only_exceptions sc \<and> refetch_keeps_id sc (msg_id message)
     \<and> reaches_download message mt ff
     \<and> (\<forall>k<MAX_RETRIES. \<exists>s x. on_attempt sc k = Raises s x)
     \<and> (\<forall>k<MAX_RETRIES. \<forall>m ms. on_refetch sc k = Refetched (m # ms)
            \<longrightarrow> reaches_download m mt ff) \<longrightarrow>
      (\<exists>p c'. download_media sc message mt ff c sem = (Returns (msg_id message) p, c')
         \<and> failure_path p \<and> msg_id message \<in> set (failed_ids (dl_state c'))
         \<and> downloaded_ids (dl_state c') = downloaded_ids (dl_state c)
         \<and> total_size_bytes (dl_state c') = total_size_bytes (dl_state c)))
   \<and> (fst (download_media sc message mt ff c sem) = Propagates e
        \<longrightarrow> exc_class e = NonException)
   \<and> download_media sc message mt ff c sem = download_media_loop sc mt ff 0 message c
   \<and> try_body (Raises Classification e) message mt ff st = Raise e
   \<and> (reaches_download message mt ff \<longrightarrow> try_body (Raises s e) message mt ff st = Raise e)
   \<and> (retry < MAX_RETRIES
      \<and> try_body (on_attempt sc retry) message mt ff (dl_state c) = ReturnId \<longrightarrow>
     download_media_loop sc mt ff retry message c = (Returns (msg_id message) FilteredOut, c))
   \<and> (retry < MAX_RETRIES
      \<and> try_body (on_attempt sc retry) message mt ff (dl_state c) = BreakLoop st'
     \<longrightarrow> download_media_loop sc mt ff retry message c
           = (Returns (msg_id message) BodyDone, c\<lparr>dl_state := st'\<rparr>)
         \<and> failed_ids st' = failed_ids (dl_state c))
   \<and> (retry < MAX_RETRIES
      \<and> try_body (on_attempt sc retry) message mt ff (dl_state c) = Raise x
      \<and> exc_class x = NonException \<longrightarrow>
     download_media_loop sc mt ff retry message c = (Propagates x, c))
   \<and> (retry < MAX_RETRIES
      \<and> try_body (on_attempt sc retry) message mt ff (dl_state c) = Raise x
      \<and> exc_class x = BadRequestError \<longrightarrow>
     (\<exists>c'. download_media_loop sc mt ff retry message c
              = (Returns (msg_id message) BadRequestBreak, c')
        \<and> msg_id message \<in> set (failed_ids (dl_state c'))
        \<and> downloaded_ids (dl_state c') = downloaded_ids (dl_state c)
        \<and> handler c' = map_option (\<lambda>h. handle_error h x (Some (msg_id message)) True False)
                          (handler c)
        \<and> sleeps c' = sleeps c \<and> refetches c' = refetches c))
   \<and> (retry < MAX_RETRIES
      \<and> try_body (on_attempt sc retry) message mt ff (dl_state c) = Raise x
      \<and> exc_class x = OtherException \<longrightarrow>
     (\<exists>c'. download_media_loop sc mt ff retry message c
              = (Returns (msg_id message) UnexpectedBreak, c')
        \<and> msg_id message \<in> set (failed_ids (dl_state c'))
        \<and> downloaded_ids (dl_state c') = downloaded_ids (dl_state c)
        \<and> handler c' = map_option (\<lambda>h. handle_error h x (Some (msg_id message)) True True)
                          (handler c)
        \<and> sleeps c' = sleeps c \<and> refetches c' = refetches c))
   \<and> (retry = MAX_RETRIES - 1
      \<and> try_body (on_attempt sc retry) message mt ff (dl_state c) = Raise x
      \<and> (exc_class x = TimeoutError \<or> exc_class x = FileReferenceExpiredError) \<longrightarrow>
     fst (download_media_loop sc mt ff retry message c) = Returns (msg_id message) LoopEnded
     \<and> msg_id message
          \<in> set (failed_ids (dl_state (snd (download_media_loop sc mt ff retry message c))))
     \<and> sleeps (snd (download_media_loop sc mt ff retry message c)) = sleeps c
     \<and> refetches (snd (download_media_loop sc mt ff retry message c)) = refetches c)
   \<and> (retry < MAX_RETRIES - 1
      \<and> try_body (on_attempt sc retry) message mt ff (dl_state c) = Raise x
      \<and> exc_class x = FileReferenceExpiredError \<and> on_refetch sc retry = RefetchRaises re
      \<and> exc_class re \<noteq> NonException \<longrightarrow>
     (\<exists>c'. download_media_loop sc mt ff retry message c
              = (Returns (msg_id message) RefetchFailed, c')
        \<and> msg_id message \<in> set (failed_ids (dl_state c'))
        \<and> downloaded_ids (dl_state c') = downloaded_ids (dl_state c)
        \<and> refetches c' = refetches c + 1))
   \<and> (retry < MAX_RETRIES - 1
      \<and> try_body (on_attempt sc retry) message mt ff (dl_state c) = Raise x
      \<and> exc_class x = FileReferenceExpiredError \<and> on_refetch sc retry = RefetchRaises re
      \<and> exc_class re = NonException \<longrightarrow>
     fst (download_media_loop sc mt ff retry message c) = Propagates re)
   \<and> (retry < MAX_RETRIES - 1
      \<and> try_body (on_attempt sc retry) message mt ff (dl_state c) = Raise x
      \<and> exc_class x = FileReferenceExpiredError \<and> on_refetch sc retry = Refetched ms \<longrightarrow>
     (\<exists>c'. download_media_loop sc mt ff retry message c
              = download_media_loop sc mt ff (retry + 1)
                  (case ms of [] \<Rightarrow> message | m # _ \<Rightarrow> m) c'
        \<and> dl_state c' = dl_state c \<and> sleeps c' = sleeps c
        \<and> refetches c' = refetches c + 1))
   \<and> (retry < MAX_RETRIES - 1
      \<and> try_body (on_attempt sc retry) message mt ff (dl_state c) = Raise x
      \<and> exc_class x = TimeoutError \<longrightarrow>
     (\<exists>c'. download_media_loop sc mt ff retry message c
              = download_media_loop sc mt ff (retry + 1) message c'
        \<and> dl_state c' = dl_state c
        \<and> sleeps c' = sleeps c @ [wait_time retry (jitter sc retry)]
        \<and> refetches c' = refetches c))"
  by (intro conjI c1_returns c1_never_completes c1_propagates c1_loop try_body_classification
      c1_reaches c1_filtered c1_done c1_non_exception c1_bad_request c1_unexpected c1_last
      c1_refetch_failed c1_refetch_propagates c1_refetch_retry c1_timeout_retry)

lemma upt_MAX_RETRIES: "[0..<MAX_RETRIES] = [0, 1, 2]"
  by (simp add: MAX_RETRIES_def upt_rec)

lemma mixed_run:
  "download_media mixed_script (photo_message 7) [''photo''] Map.empty
       (new_ctx empty_state (Some new_error_handler)) True
   = (Returns 7 BadRequestBreak,
      \<lparr>dl_state = \<lparr>failed_ids = [7], downloaded_ids = [], total_size_bytes = 0\<rparr>,
       handler = Some \<lparr>error_count = 1, warnings_count = 2\<rparr>,
       sleeps = [21 / 4], wait_times = [21 / 4], refetches = 1\<rparr>)"
  by (simp add: download_media_def download_media_internal_def download_media_loop.simps
      MAX_RETRIES_def mixed_script_def photo_message_def try_body_def get_media_type_def
      media_object_of_def get_media_meta_def can_download_def py_exc_def new_ctx_def
      empty_state_def new_error_handler_def handle_def failed_def mark_failed_def
      handle_error_def from_exception_def wait_time_def MAX_RETRY_DELAY_def
      INITIAL_RETRY_DELAY_def Let_def)

theorem dispatcher_returns_id_witness:
  "only_exceptions mixed_script
   \<and> refetch_keeps_id mixed_script (msg_id (photo_message 7))
   \<and> reaches_download (photo_message 7) [''photo''] Map.empty
   \<and> (\<exists>s x. on_attempt mixed_script 0 = Raises s x)
   \<and> (\<exists>s x. on_attempt mixed_script 1 = Raises s x)
   \<and> (\<exists>s x. on_attempt mixed_script 2 = Raises s x)
   \<and> on_refetch mixed_script 1 = Refetched [photo_message 7]
   \<and> fst (download_media mixed_script (photo_message 7) [''photo''] Map.empty
            (new_ctx empty_state (Some new_error_handler)) True)
       = Returns 7 BadRequestBreak
   \<and> failure_path BadRequestBreak
   \<and> 7 \<in> set (failed_ids (dl_state (snd
          (download_media mixed_script (photo_message 7) [''photo''] Map.empty
            (new_ctx empty_state (Some new_error_handler)) True))))
   \<and> downloaded_ids (dl_state (snd
          (download_media mixed_script (photo_message 7) [''photo''] Map.empty
            (new_ctx empty_state (Some new_error_handler)) True))) = []
   \<and> total_size_bytes (dl_state (snd
          (download_media mixed_script (photo_message 7) [''photo''] Map.empty
            (new_ctx empty_state (Some new_error_handler)) True))) = 0"
proof -
  have h1: "only_exceptions mixed_script"
    by (simp add: only_exceptions_def upt_MAX_RETRIES mixed_script_def py_exc_def)
  have h2: "refetch_keeps_id mixed_script (msg_id (photo_message 7))"
    by (simp add: refetch_keeps_id_def upt_MAX_RETRIES mixed_script_def photo_message_def)
  have h3: "reaches_download (photo_message 7) [''photo''] Map.empty"
    by (simp add: reaches_download_def photo_message_def get_media_type_def
        media_object_of_def get_media_meta_def can_download_def)
  have h4: "\<forall>k<MAX_RETRIES. \<exists>s x. on_attempt mixed_script k = Raises s x"
    by (simp add: mixed_script_def)
  have h5: "\<forall>k<MAX_RETRIES. \<forall>m ms. on_refetch mixed_script k = Refetched (m # ms)
      \<longrightarrow> reaches_download m [''photo''] Map.empty"
    using h3 by (simp add: mixed_script_def)
  have ev: "\<exists>s x. on_attempt mixed_script 0 = Raises s x"
    "\<exists>s x. on_attempt mixed_script 1 = Raises s x"
    "\<exists>s x. on_attempt mixed_script 2 = Raises s x"
    "on_refetch mixed_script 1 = Refetched [photo_message 7]"
    by (simp_all add: mixed_script_def)
  have id: "msg_id (photo_message 7) = 7"
    by (simp add: photo_message_def)
  note law = dispatcher_returns_id [where sc = mixed_script and message = "photo_message 7"
      and mt = "[''photo'']" and ff = Map.empty
      and c = "new_ctx empty_state (Some new_error_handler)" and sem = True]
  from law [THEN conjunct2, THEN conjunct1] h1 h2 h3 h4 h5
  obtain p c' where r: "download_media mixed_script (photo_message 7) [''photo''] Map.empty
            (new_ctx empty_state (Some new_error_handler)) True = (Returns 7 p, c')"
    "failure_path p" "7 \<in> set (failed_ids (dl_state c'))"
    "downloaded_ids (dl_state c') = downloaded_ids (dl_state (new_ctx empty_state (Some new_error_handler)))"
    "total_size_bytes (dl_state c') = total_size_bytes (dl_state (new_ctx empty_state (Some new_error_handler)))"
    unfolding id by blast
  have p: "p = BadRequestBreak"
    using r(1) by (simp add: mixed_run)
  show ?thesis
    using h1 h2 h3 ev r p by (simp add: new_ctx_def empty_state_def)
qed

text \<open>
  Claim C1, as stated, fails for the exceptions that do not derive from \<^verbatim>\<open>Exception\<close>:
  the last clause of the dispatcher is \<^verbatim>\<open>except Exception\<close>, so a
  \<^verbatim>\<open>KeyboardInterrupt\<close> raised while the downloaded file is hashed leaves the dispatcher
  as an exception.
\<close>

theorem dispatcher_propagates_counterexample:
  "fst (download_media interrupt_script (photo_message 7) [''photo''] Map.empty
          (new_ctx empty_state (Some new_error_handler)) True)
     = Propagates (py_exc NonException ''KeyboardInterrupt'')"
  by (simp add: download_media_def download_media_internal_def download_media_loop.simps
      MAX_RETRIES_def interrupt_script_def photo_message_def try_body_def get_media_type_def
      media_object_of_def get_media_meta_def can_download_def py_exc_def new_ctx_def Let_def)

theorem timeout_backoff_witness:
  "always_times_out timeout_script
   \<and> jitter_in_range timeout_script
   \<and> reaches_download (photo_message 3) [''photo''] Map.empty
   \<and> fst (download_media timeout_script (photo_message 3) [''photo''] Map.empty
            (new_ctx empty_state None) False) = Returns 3 LoopEnded
   \<and> 3 \<in> set (failed_ids (dl_state (snd
          (download_media timeout_script (photo_message 3) [''photo''] Map.empty
            (new_ctx empty_state None) False))))
   \<and> sleeps (snd (download_media timeout_script (photo_message 3) [''photo''] Map.empty
            (new_ctx empty_state None) False)) = [11 / 2, 21 / 2]
   \<and> wait_times (snd (download_media timeout_script (photo_message 3) [''photo''] Map.empty
            (new_ctx empty_state None) False)) = [11 / 2, 21 / 2, 41 / 2]"
proof -
  have h1: "always_times_out timeout_script"
    by (simp add: always_times_out_def upt_MAX_RETRIES timeout_script_def py_exc_def)
  have h2: "jitter_in_range timeout_script"
    by (simp add: jitter_in_range_def upt_MAX_RETRIES timeout_script_def)
  have h3: "reaches_download (photo_message 3) [''photo''] Map.empty"
    by (simp add: reaches_download_def photo_message_def get_media_type_def
        media_object_of_def get_media_meta_def can_download_def)
  have j: "jitter timeout_script k = 1 / 2" for k
    by (simp add: timeout_script_def)
  have id: "msg_id (photo_message 3) = 3"
    by (simp add: photo_message_def)
  have w: "wait_time 0 (1 / 2) = 11 / 2" "wait_time 1 (1 / 2) = 21 / 2" "wait_time 2 (1 / 2) = 41 / 2"
    by (simp_all add: wait_time_def MAX_RETRY_DELAY_def INITIAL_RETRY_DELAY_def)
  from timeout_backoff [OF h1 h2 h3, of "new_ctx empty_state None" False]
  obtain c' where r: "download_media timeout_script (photo_message 3) [''photo''] Map.empty
            (new_ctx empty_state None) False = (Returns 3 LoopEnded, c')"
      "3 \<in> set (failed_ids (dl_state c'))"
      "wait_times c' = [11 / 2, 21 / 2, 41 / 2]"
      "sleeps c' = [11 / 2, 21 / 2]"
    by (auto simp: j id w new_ctx_def)
  show ?thesis
    using h1 h2 h3 r by simp
qed

section \<open>Properties of the session orchestrator\<close>

lemma download_ok:
  assumes "well_behaved (m, sc)"
  shows "\<exists>p c'. download_media sc m mt ff c sem = (Returns (msg_id m) p, c')"
proof -
  have a: "only_exceptions sc" "refetch_keeps_id sc (msg_id m)"
    using assms by (simp_all add: well_behaved_def)
  have "MAX_RETRIES \<le> 0 \<longrightarrow> msg_id m \<in> set (failed_ids (dl_state c))"
    by (simp add: MAX_RETRIES_def)
  from loop_returns [OF a refl this, of mt ff]
  show ?thesis
    by (auto simp: download_media_def download_media_internal_def)
qed

lemma gather_ok:
  "list_all well_behaved ms \<Longrightarrow> \<exists>c'. gather ms mt ff c = (Inr (ids_of ms), c')"
proof (induction ms arbitrary: c)
  case Nil
  show ?case by (simp add: ids_of_def)
next
  case (Cons a ms)
  obtain m sc where a: "a = (m, sc)" by (cases a)
  have wb: "well_behaved (m, sc)" and rest: "list_all well_behaved ms"
    using Cons.prems a by simp_all
  obtain p c1 where d: "download_media sc m mt ff c True = (Returns (msg_id m) p, c1)"
    using download_ok [OF wb] by blast
  obtain c2 where g: "gather ms mt ff c1 = (Inr (ids_of ms), c2)"
    using Cons.IH [OF rest] by blast
  show ?case
    using a d g by (simp add: ids_of_def)
qed

lemma foldl_max_sorted:
  "sorted (x # xs) \<Longrightarrow> foldl max x xs = last (x # xs)"
proof (induction xs arbitrary: x)
  case Nil
  show ?case by simp
next
  case (Cons y ys)
  have "max x y = y" using Cons.prems by simp
  moreover have "sorted (y # ys)" using Cons.prems by simp
  ultimately show ?case using Cons.IH [of y] by simp
qed

lemma py_max_sorted:
  "xs \<noteq> [] \<Longrightarrow> sorted xs \<Longrightarrow> py_max xs = Inr (last xs)"
  by (cases xs) (simp_all add: py_max_def foldl_max_sorted del: sorted_simps last.simps)

lemma process_ok:
  assumes "ms \<noteq> []" and "list_all well_behaved ms" and "sorted (ids_of ms)"
  shows "\<exists>c'. process_messages ms mt ff c = (Inr (last (ids_of ms)), c')"
proof -
  obtain c' where g: "gather ms mt ff c = (Inr (ids_of ms), c')"
    using gather_ok [OF assms(2)] by blast
  have "ids_of ms \<noteq> []" using assms(1) by (simp add: ids_of_def)
  then show ?thesis
    using g py_max_sorted [OF _ assms(3)] by (simp add: process_messages_def)
qed

lemma unbounded_filters [simp]:
  "unbounded c \<Longrightarrow> \<not> after_end c m"
  "unbounded c \<Longrightarrow> \<not> before_start c m"
  "unbounded c \<Longrightarrow> \<not> cap_reached c st"
  by (simp_all add: unbounded_def after_end_def before_start_def cap_reached_def)

lemma scan_accumulate:
  "unbounded (cfg s) \<Longrightarrow> pagination_count s + int (length xs) \<le> limit \<Longrightarrow>
   scan_loop limit (xs @ ys) s =
     scan_loop limit ys
       (s\<lparr>total_count := total_count s + int (length xs),
          pagination_count := pagination_count s + int (length xs),
          messages_list := messages_list s @ xs\<rparr>)"
proof (induction xs arbitrary: s)
  case Nil
  show ?case by simp
next
  case (Cons a xs)
  obtain m sc where a: "a = (m, sc)" by (cases a)
  let ?s' = "s\<lparr>total_count := total_count s + 1,
                pagination_count := pagination_count s + 1,
                messages_list := messages_list s @ [(m, sc)]\<rparr>"
  have ne: "pagination_count s \<noteq> limit" using Cons.prems(2) by simp
  have step: "scan_loop limit ((m, sc) # xs @ ys) s = scan_loop limit (xs @ ys) ?s'"
    using Cons.prems(1) ne by (simp add: Let_def)
  have "unbounded (cfg ?s')" using Cons.prems(1) by simp
  moreover have "pagination_count ?s' + int (length xs) \<le> limit" using Cons.prems(2) by simp
  ultimately have "scan_loop limit (xs @ ys) ?s' =
     scan_loop limit ys
       (?s'\<lparr>total_count := total_count ?s' + int (length xs),
          pagination_count := pagination_count ?s' + int (length xs),
          messages_list := messages_list ?s' @ xs\<rparr>)"
    by (rule Cons.IH)
  then show ?case using step a by (simp add: algebra_simps)
qed

lemma unbounded_update_config [simp]:
  "unbounded (cfg (update_config s)) = unbounded (cfg s)"
  by (simp add: update_config_def unbounded_def Let_def)

lemma update_config_fields [simp]:
  "messages_list (update_config s) = messages_list s"
  "pagination_count (update_config s) = pagination_count s"
  "total_count (update_config s) = total_count s"
  "skipped_count (update_config s) = skipped_count s"
  "last_read (update_config s) = last_read s"
  "ctx (update_config s) = ctx s"
  "batches (update_config s) = batches s"
  "media_types (cfg (update_config s)) = media_types (cfg s)"
  "file_formats (cfg (update_config s)) = file_formats (cfg s)"
  "last_read_message_id (cfg (update_config s)) = last_read_message_id (cfg s)"
  "saved (update_config s) \<noteq> []"
  "last_read_message_id (last (saved (update_config s))) = last_read_message_id (cfg s)"
  by (simp_all add: update_config_def Let_def)

lemma scan_dispatch:
  assumes "unbounded (cfg s)" and "pagination_count s = limit" and "messages_list s \<noteq> []"
    and "list_all well_behaved (messages_list s)" and "sorted (ids_of (messages_list s))"
  shows "\<exists>s'. scan_loop limit (m # ys) s = scan_loop limit ys s'
     \<and> messages_list s' = [m] \<and> pagination_count s' = 0
     \<and> total_count s' = total_count s + 1 \<and> skipped_count s' = skipped_count s
     \<and> batches s' = batches s @ [length (messages_list s)]
     \<and> last_read s' = last (ids_of (messages_list s))
     \<and> unbounded (cfg s')
     \<and> media_types (cfg s') = media_types (cfg s)
     \<and> file_formats (cfg s') = file_formats (cfg s)"
proof -
  obtain msg sc where m: "m = (msg, sc)" by (cases m)
  obtain c' where p: "process_messages (messages_list s) (media_types (cfg s))
      (file_formats (cfg s)) (ctx s) = (Inr (last (ids_of (messages_list s))), c')"
    using process_ok [OF assms(3,4,5)] by blast
  let ?s3 = "s\<lparr>total_count := total_count s + 1,
                last_read := last (ids_of (messages_list s)), ctx := c',
                batches := batches s @ [length (messages_list s)],
                pagination_count := 0, messages_list := [(msg, sc)],
                cfg := (cfg s)\<lparr>last_read_message_id := last (ids_of (messages_list s))\<rparr>\<rparr>"
  let ?s' = "if int (length (downloaded_ids (dl_state c'))) mod 50 = 0
             then update_config ?s3 else ?s3"
  have ub: "unbounded (cfg s\<lparr>last_read_message_id := x\<rparr>)" for x
    using assms(1) by (simp add: unbounded_def)
  have "scan_loop limit (m # ys) s = scan_loop limit ys ?s'"
    using assms(1,2) p m ub by (simp add: Let_def)
  moreover have "messages_list ?s' = [m] \<and> pagination_count ?s' = 0
     \<and> total_count ?s' = total_count s + 1 \<and> skipped_count ?s' = skipped_count s
     \<and> batches ?s' = batches s @ [length (messages_list s)]
     \<and> last_read ?s' = last (ids_of (messages_list s))
     \<and> unbounded (cfg ?s')
     \<and> media_types (cfg ?s') = media_types (cfg s)
     \<and> file_formats (cfg ?s') = file_formats (cfg s)"
    using m ub by simp
  ultimately show ?thesis by blast
qed

lemma split_250:
  assumes "length (ms :: 'a list) = 250"
  obtains A m1 B m2 C where "ms = A @ (m1 # B) @ (m2 # C)"
    and "length A = 100" and "length B = 100" and "length C = 48"
proof -
  let ?R = "drop 101 ms"
  have 1: "ms = take 100 ms @ ms ! 100 # ?R"
    using assms id_take_nth_drop [of 100 ms] by simp
  have 2: "?R = take 100 ?R @ ?R ! 100 # drop 101 ?R"
    using assms id_take_nth_drop [of 100 ?R] by simp
  have "ms = take 100 ms @ (ms ! 100 # take 100 ?R) @ (?R ! 100 # drop 101 ?R)"
    using 1 2 by (metis append_Cons)
  moreover have "length (take 100 ms) = 100" "length (take 100 ?R) = 100"
    "length (drop 101 ?R) = 48"
    using assms by simp_all
  ultimately show ?thesis using that by blast
qed

text \<open>
  Claim C2, on the code. For a scan over 250 messages whose ids do not decrease, with a
  pagination limit of 100, no date bounds, no message cap and an empty retry list, where no
  download lets an exception through: \<^verbatim>\<open>begin_import\<close> returns, it has dispatched exactly
  three batches, the last of them in the drain step, the cursor it returns and the cursor
  it saved last are the id of the last message, and the summary counts 250 messages. The
  batches hold 100, 101 and 49 messages, not 100, 100 and 50: after a dispatch
  \<^verbatim>\<open>pagination_count\<close> restarts at 0 although the message that triggered the dispatch is
  already in the new list, so the list is dispatched when it holds one message more than
  the limit.
\<close>

theorem scan_250_batches:
  assumes len: "length ms = 250" and wb: "list_all well_behaved ms"
    and srt: "sorted (ids_of ms)" and ub: "unbounded c" and nr: "ids_to_retry c = []"
  shows "\<exists>s sm. begin_import \<lparr>iter_messages = ms, get_messages = g\<rparr> c 100 d = Inr (s, sm)
     \<and> batches s = [100, 101, 49]
     \<and> last_read_message_id (cfg s) = msg_id (fst (last ms))
     \<and> saved s \<noteq> []
     \<and> last_read_message_id (last (saved s)) = msg_id (fst (last ms))
     \<and> total_messages sm = 250"
proof -
  obtain A m1 B m2 C where ms: "ms = A @ (m1 # B) @ (m2 # C)"
    and lA: "length A = 100" and lB: "length B = 100" and lC: "length C = 48"
    using split_250 [OF len] by blast
  have wbA: "list_all well_behaved A" and wbB: "list_all well_behaved (m1 # B)"
    and wbC: "list_all well_behaved (m2 # C)"
    using wb unfolding ms by simp_all
  have sA: "sorted (ids_of A)" and sB: "sorted (ids_of (m1 # B))" and sC: "sorted (ids_of (m2 # C))"
    using srt unfolding ms ids_of_def by (simp_all add: sorted_append)
  let ?cl = "\<lparr>iter_messages = ms, get_messages = g\<rparr>"
  define s0 where "s0 = init_scan ?cl c"
  have s0: "messages_list s0 = []" "pagination_count s0 = 0" "total_count s0 = 0"
    "skipped_count s0 = 0" "batches s0 = []" "cfg s0 = c"
    using nr by (simp_all add: init_scan_def s0_def)
  \<comment> \<open>the first hundred messages fill the first batch\<close>
  define sA where "sA = s0\<lparr>total_count := total_count s0 + int (length A),
                  pagination_count := pagination_count s0 + int (length A),
                  messages_list := messages_list s0 @ A\<rparr>"
  have e1: "scan_loop 100 (A @ (m1 # B) @ (m2 # C)) s0 = scan_loop 100 ((m1 # B) @ (m2 # C)) sA"
    unfolding sA_def by (rule scan_accumulate) (simp_all add: s0 ub lA)
  have fA: "messages_list sA = A" "pagination_count sA = 100" "total_count sA = 100"
    "skipped_count sA = 0" "batches sA = []" "cfg sA = c"
    using s0 lA by (simp_all add: sA_def)
  have pA: "unbounded (cfg sA)" "messages_list sA \<noteq> []"
    "list_all well_behaved (messages_list sA)" "sorted (ids_of (messages_list sA))"
    using ub lA wbA sA by (auto simp: fA)
  \<comment> \<open>message 101 makes the loop dispatch them\<close>
  obtain s1 where e2: "scan_loop 100 (m1 # B @ (m2 # C)) sA = scan_loop 100 (B @ (m2 # C)) s1"
    and g1: "messages_list s1 = [m1]" "pagination_count s1 = 0"
      "total_count s1 = total_count sA + 1" "skipped_count s1 = skipped_count sA"
      "batches s1 = batches sA @ [length (messages_list sA)]" "unbounded (cfg s1)"
      "media_types (cfg s1) = media_types (cfg sA)" "file_formats (cfg s1) = file_formats (cfg sA)"
    using scan_dispatch [OF pA(1) fA(2) pA(2,3,4), of m1 "B @ (m2 # C)"] by blast
  have f1: "total_count s1 = 101" "skipped_count s1 = 0" "batches s1 = [100]"
    "media_types (cfg s1) = media_types c" "file_formats (cfg s1) = file_formats c"
    using g1 fA lA by simp_all
  \<comment> \<open>the next hundred join message 101 in the second batch\<close>
  define sB where "sB = s1\<lparr>total_count := total_count s1 + int (length B),
                  pagination_count := pagination_count s1 + int (length B),
                  messages_list := messages_list s1 @ B\<rparr>"
  have e3: "scan_loop 100 (B @ (m2 # C)) s1 = scan_loop 100 (m2 # C) sB"
    unfolding sB_def by (rule scan_accumulate) (simp_all add: g1 lB)
  have fB: "messages_list sB = m1 # B" "pagination_count sB = 100" "total_count sB = 201"
    "skipped_count sB = 0" "batches sB = [100]" "unbounded (cfg sB)"
    "media_types (cfg sB) = media_types c" "file_formats (cfg sB) = file_formats c"
    using g1 f1 lB by (simp_all add: sB_def)
  have pB: "messages_list sB \<noteq> []"
    "list_all well_behaved (messages_list sB)" "sorted (ids_of (messages_list sB))"
    using wbB sB by (simp_all only: fB) simp
  obtain s2 where e4: "scan_loop 100 (m2 # C) sB = scan_loop 100 C s2"
    and g2: "messages_list s2 = [m2]" "pagination_count s2 = 0"
      "total_count s2 = total_count sB + 1" "skipped_count s2 = skipped_count sB"
      "batches s2 = batches sB @ [length (messages_list sB)]" "unbounded (cfg s2)"
      "media_types (cfg s2) = media_types (cfg sB)" "file_formats (cfg s2) = file_formats (cfg sB)"
    using scan_dispatch [OF fB(6) fB(2) pB, of m2 C] by blast
  have f2: "total_count s2 = 202" "skipped_count s2 = 0" "batches s2 = [100, 101]"
    "media_types (cfg s2) = media_types c" "file_formats (cfg s2) = file_formats c"
    using g2 fB lB by simp_all
  \<comment> \<open>the remaining messages stay in the list until the iterator ends\<close>
  define sC where "sC = s2\<lparr>total_count := total_count s2 + int (length C),
                  pagination_count := pagination_count s2 + int (length C),
                  messages_list := messages_list s2 @ C\<rparr>"
  have "scan_loop 100 (C @ []) s2 = scan_loop 100 [] sC"
    unfolding sC_def by (rule scan_accumulate) (simp_all add: g2 lC)
  then have e5: "scan_loop 100 C s2 = Inr sC"
    by simp
  have fC: "messages_list sC = m2 # C" "total_count sC = 250" "batches sC = [100, 101]"
    "media_types (cfg sC) = media_types c" "file_formats (cfg sC) = file_formats c"
    using g2 f2 lC by (simp_all add: sC_def)
  have "scan_loop 100 (A @ (m1 # B) @ (m2 # C)) s0 = Inr sC"
    using e1 e2 e3 e4 e5 by simp
  then have scan: "scan_loop 100 (iter_messages ?cl) (init_scan ?cl c) = Inr sC"
    using ms s0_def by simp
  \<comment> \<open>the drain step dispatches them\<close>
  have "m2 # C \<noteq> []" by simp
  from process_ok [OF this wbC sC]
  obtain c' where p: "process_messages (m2 # C) (media_types c) (file_formats c) (ctx sC)
      = (Inr (last (ids_of (m2 # C))), c')"
    by blast
  define sD where "sD = sC\<lparr>last_read := last (ids_of (m2 # C)), ctx := c',
                   batches := batches sC @ [length (messages_list sC)]\<rparr>"
  have dr: "drain sC = Inr sD"
    using p fC by (simp add: drain_def sD_def)
  have lastid: "last (ids_of (m2 # C)) = msg_id (fst (last ms))"
    unfolding ms by (simp add: ids_of_def last_map)
  have fD: "batches sD = [100, 101, 49]" "last_read sD = msg_id (fst (last ms))"
    "total_count sD = 250"
    using fC lC lastid by (simp_all add: sD_def)
  have fin: "batches (finalize sD) = [100, 101, 49]"
    "last_read_message_id (cfg (finalize sD)) = msg_id (fst (last ms))"
    "saved (finalize sD) \<noteq> []"
    "last_read_message_id (last (saved (finalize sD))) = msg_id (fst (last ms))"
    "total_count (finalize sD) = 250"
    using fD by (simp_all add: finalize_def)
  have "begin_import ?cl c 100 d = Inr (finalize sD, make_summary (finalize sD) d)"
    using scan dr by (simp add: begin_import_def Let_def)
  moreover have "total_messages (make_summary (finalize sD) d) = 250"
    using fin(5) by (simp add: make_summary_def)
  ultimately show ?thesis using fin by blast
qed

lemma done_script_well_behaved: "well_behaved (photo_message i, done_script)"
  by (simp add: well_behaved_def only_exceptions_def refetch_keeps_id_def upt_MAX_RETRIES
      done_script_def)

lemma photo_client_facts:
  "0 \<le> n \<Longrightarrow> length (iter_messages (photo_client n)) = nat n"
  "list_all well_behaved (iter_messages (photo_client n))"
  "sorted (ids_of (iter_messages (photo_client n)))"
  "1 \<le> n \<Longrightarrow> msg_id (fst (last (iter_messages (photo_client n)))) = n"
proof -
  show "0 \<le> n \<Longrightarrow> length (iter_messages (photo_client n)) = nat n"
    by (simp add: photo_client_def)
  show "list_all well_behaved (iter_messages (photo_client n))"
    by (simp add: photo_client_def list_all_iff done_script_well_behaved)
  have "ids_of (iter_messages (photo_client n)) = [1..n]"
    by (simp add: photo_client_def ids_of_def photo_message_def o_def)
  then show "sorted (ids_of (iter_messages (photo_client n)))"
    by simp
  assume n: "1 \<le> n"
  then have "[1..n] = [1..n - 1] @ [n]"
    by (simp add: upto_rec2)
  then have "last (map (\<lambda>i. (photo_message i, done_script)) [1..n]) = (photo_message n, done_script)"
    by simp
  then show "msg_id (fst (last (iter_messages (photo_client n)))) = n"
    by (simp add: photo_client_def photo_message_def)
qed

theorem scan_250_batches_witness:
  "length (iter_messages (photo_client 250)) = 250
   \<and> list_all well_behaved (iter_messages (photo_client 250))
   \<and> sorted (ids_of (iter_messages (photo_client 250)))
   \<and> unbounded plain_config
   \<and> ids_to_retry plain_config = []
   \<and> last_read_message_id plain_config = 0
   \<and> (\<exists>s sm. begin_import (photo_client 250) plain_config 100 1 = Inr (s, sm)
         \<and> batches s = [100, 101, 49]
         \<and> last_read_message_id (last (saved s)) = 250
         \<and> total_messages sm = 250)"
proof -
  have h1: "length (iter_messages (photo_client 250)) = 250"
    using photo_client_facts(1) [of 250] by simp
  have h2: "list_all well_behaved (iter_messages (photo_client 250))"
    by (rule photo_client_facts(2))
  have h3: "sorted (ids_of (iter_messages (photo_client 250)))"
    by (rule photo_client_facts(3))
  have h4: "unbounded plain_config" and h5: "ids_to_retry plain_config = []"
    and h6: "last_read_message_id plain_config = 0"
    by (simp_all add: unbounded_def plain_config_def)
  have l: "msg_id (fst (last (iter_messages (photo_client 250)))) = 250"
    using photo_client_facts(4) [of 250] by simp
  have c: "photo_client 250
      = \<lparr>iter_messages = iter_messages (photo_client 250), get_messages = []\<rparr>"
    by (simp add: photo_client_def)
  from scan_250_batches [OF h1 h2 h3 h4 h5, of "[]" 1]
  obtain s sm where "begin_import (photo_client 250) plain_config 100 1 = Inr (s, sm)"
    "batches s = [100, 101, 49]" "last_read_message_id (last (saved s)) = 250"
    "total_messages sm = 250"
    using l c by auto
  then show ?thesis
    using h1 h2 h3 h4 h5 h6 by blast
qed

section \<open>Properties of the file reconciler\<close>

lemma concat_read_chunks: "0 < n \<Longrightarrow> concat (read_chunks n bs) = bs"
proof (induction n bs rule: read_chunks.induct)
  case (1 n bs)
  show ?case
  proof (cases "bs = []")
    case True
    then show ?thesis by (simp add: read_chunks.simps)
  next
    case False
    then have "read_chunks n bs = take n bs # read_chunks n (drop n bs)"
      using "1.prems" by (simp add: read_chunks.simps [of n bs])
    moreover have "concat (read_chunks n (drop n bs)) = drop n bs"
      using "1.IH" False "1.prems" by simp
    ultimately show ?thesis by simp
  qed
qed

lemma read_chunks_sizes:
  "list_all (\<lambda>c. c \<noteq> [] \<and> length c \<le> n) (read_chunks n bs)"
proof (induction n bs rule: read_chunks.induct)
  case (1 n bs)
  show ?case
  proof (cases "n = 0 \<or> bs = []")
    case True
    then show ?thesis by (simp add: read_chunks.simps [of n bs])
  next
    case False
    then show ?thesis
      using "1.IH" by (simp add: read_chunks.simps [of n bs])
  qed
qed

lemma hash_readable:
  "lookup fs f = Some e \<Longrightarrow> content e = Some bs \<Longrightarrow>
   calculate_file_hash md5 fs f = Inr (md5 bs)"
  by (simp add: calculate_file_hash_def concat_read_chunks)

lemma check_no_match:
  "list_all (no_match md5 fs h) cands \<Longrightarrow> check_old_files md5 fs f h cands = (f, fs)"
  by (induction cands) (auto simp: no_match_def split: sum.splits)

lemma check_first_match:
  "list_all (no_match md5 fs h) pre \<Longrightarrow> calculate_file_hash md5 fs c = Inr h \<Longrightarrow>
   os_remove fs f = Inr fs' \<Longrightarrow>
   check_old_files md5 fs f h (pre @ c # post) = (c, fs')"
  by (induction pre) (auto simp: no_match_def split: sum.splits)

lemma check_first_match_kept:
  "list_all (no_match md5 fs h) pre \<Longrightarrow> calculate_file_hash md5 fs c = Inr h \<Longrightarrow>
   os_remove fs f = Inl x \<Longrightarrow>
   check_old_files md5 fs f h (pre @ c # post) = (f, fs)"
  by (induction pre) (auto simp: no_match_def split: sum.splits)

lemma glob_star_all: "glob_match [AnyString] s"
  by (induction s) simp_all

lemma glob_star_skip: "glob_match ps s \<Longrightarrow> glob_match (AnyString # ps) s"
  by (cases s) simp_all

lemma glob_prefix_match: "glob_match (map glob_token_of b @ [AnyString]) (b @ t)"
proof (induction b)
  case Nil
  show ?case by (simp add: glob_star_all)
next
  case (Cons c b)
  then show ?case by (simp add: glob_star_skip)
qed

lemma glob_plain_prefix:
  "\<forall>c\<in>set b. c \<noteq> CHR ''*'' \<and> c \<noteq> CHR ''?'' \<Longrightarrow>
   glob_match (map glob_token_of b @ [AnyString]) n = (take (length b) n = b)"
proof (induction b arbitrary: n)
  case Nil
  show ?case by (simp add: glob_star_all)
next
  case (Cons c b)
  then show ?case by (cases n) auto
qed

lemma before_first_self: "sep \<noteq> [] \<Longrightarrow> before_first sep (sep @ r) = []"
  by (cases sep) simp_all

lemma before_first_prefix:
  "sep \<noteq> [] \<Longrightarrow> \<exists>t. n = before_first sep (n @ sep @ r) @ t"
  by (induction n) (auto simp: before_first_self)

lemma before_first_none:
  "\<forall>j. take (length sep) (drop j s) \<noteq> sep \<Longrightarrow> before_first sep s = s"
proof (induction s)
  case Nil
  show ?case by simp
next
  case (Cons x xs)
  have "take (length sep) (drop 0 (x # xs)) \<noteq> sep"
    using Cons.prems by blast
  moreover have "\<forall>j. take (length sep) (drop j xs) \<noteq> sep"
  proof
    fix j
    show "take (length sep) (drop j xs) \<noteq> sep"
      using Cons.prems [rule_format, of "Suc j"] by simp
  qed
  ultimately show ?case using Cons.IH by simp
qed

lemma before_first_at:
  "\<forall>j<i. take (length sep) (drop j s) \<noteq> sep \<Longrightarrow> take (length sep) (drop i s) = sep \<Longrightarrow>
   before_first sep s = take i s"
proof (induction s arbitrary: i)
  case Nil
  show ?case by simp
next
  case (Cons x xs)
  show ?case
  proof (cases i)
    case 0
    then show ?thesis using Cons.prems(2) by simp
  next
    case (Suc k)
    have n0: "take (length sep) (x # xs) \<noteq> sep"
      using Cons.prems(1) [rule_format, of 0] Suc by simp
    have "\<forall>j<k. take (length sep) (drop j xs) \<noteq> sep"
    proof (intro allI impI)
      fix j assume "j < k"
      then show "take (length sep) (drop j xs) \<noteq> sep"
        using Cons.prems(1) [rule_format, of "Suc j"] Suc by simp
    qed
    moreover have "take (length sep) (drop k xs) = sep"
      using Cons.prems(2) Suc by simp
    ultimately have "before_first sep xs = take k xs"
      by (rule Cons.IH)
    then show ?thesis using n0 Suc by simp
  qed
qed

lemma before_first_subset: "set (before_first sep s) \<subseteq> set s"
  by (induction s) auto

lemma rfind_absent: "c \<notin> set e \<Longrightarrow> rfind c e = None"
  by (induction e) auto

lemma rfind_last: "c \<notin> set e \<Longrightarrow> rfind c (xs @ c # e) = Some (length xs)"
proof (induction xs)
  case Nil
  then show ?case by (simp add: rfind_absent)
next
  case (Cons x xs)
  then show ?case by simp
qed

lemma stem_subset: "set (stem n) \<subseteq> set n"
  by (auto simp: stem_def split: option.splits dest: in_set_takeD)

lemma stem_no_dot: "CHR ''.'' \<notin> set n \<Longrightarrow> stem n = n"
  by (simp add: stem_def rfind_absent)

lemma stem_suffix:
  assumes "b \<noteq> []" and "ext \<noteq> []" and "CHR ''.'' \<notin> set ext"
  shows "stem (b @ ''.'' @ ext) = b"
proof -
  have "rfind CHR ''.'' (b @ CHR ''.'' # ext) = Some (length b)"
    using assms(3) by (rule rfind_last)
  moreover have "0 < length b" "length b < length (b @ ''.'' @ ext) - 1"
    using assms(1,2) by (cases ext; simp)+
  ultimately show ?thesis by (simp add: stem_def)
qed

lemma stem_leading_dot: "CHR ''.'' \<notin> set ext \<Longrightarrow> stem (''.'' @ ext) = ''.'' @ ext"
  using rfind_last [of "CHR ''.''" ext "[]"] by (simp add: stem_def)

lemma stem_trailing_dot: "stem (b @ ''.'') = b @ ''.''"
  using rfind_last [of "CHR ''.''" "[]" b] by (simp add: stem_def)

lemma stem_copy:
  assumes "ext \<noteq> []" and "CHR ''.'' \<notin> set ext"
  shows "stem (name @ ''-copy1.'' @ ext) = name @ ''-copy1''"
  using stem_suffix [of "name @ ''-copy1''" ext] assms by simp

lemma split_on_nonempty: "split_on c s \<noteq> []"
  by (induction s) (auto split: list.splits)

lemma split_on_no_sep: "x \<in> set (split_on c s) \<Longrightarrow> c \<notin> set x"
proof (induction s arbitrary: x)
  case Nil
  then show ?case by simp
next
  case (Cons a s)
  show ?case
  proof (cases "a = c")
    case True
    then show ?thesis using Cons by auto
  next
    case False
    obtain y ys where sp: "split_on c s = y # ys"
      using split_on_nonempty [of c s] by (cases "split_on c s") auto
    then have "x = a # y \<or> x \<in> set ys"
      using Cons.prems False by simp
    then show ?thesis
      using Cons.IH [of y] Cons.IH [of x] sp False by auto
  qed
qed

lemma path_parts_shape: "x \<in> set (path_parts p) \<Longrightarrow> x \<noteq> [] \<and> CHR ''/'' \<notin> set x"
  by (auto simp: path_parts_def dest: split_on_no_sep)

lemma path_name_no_slash: "CHR ''/'' \<notin> set (path_name p)"
proof (cases "path_parts p")
  case Nil
  then show ?thesis by (simp add: path_name_def)
next
  case (Cons x xs)
  then have "path_name p \<in> set (path_parts p)"
    by (simp add: path_name_def del: last.simps) (metis last_in_set list.distinct(1) set_ConsD list.set_intros)
  then show ?thesis using path_parts_shape by blast
qed

lemma base_no_slash: "CHR ''/'' \<notin> set (file_base_name f)"
  using before_first_subset [of "''-copy''" "stem (path_name f)"] stem_subset [of "path_name f"]
    path_name_no_slash [of f]
  by (auto simp: file_base_name_def)

lemma py_join_last:
  "ps \<noteq> [] \<Longrightarrow> last ps \<noteq> [] \<Longrightarrow> py_join sep ps \<noteq> [] \<and> last (py_join sep ps) = last (last ps)"
  by (induction sep ps rule: py_join.induct) auto

lemma path_root_cases: "path_root p = [] \<or> path_root p = ''/'' \<or> path_root p = ''//''"
  by (simp add: path_root_def)

lemma path_parent_shape:
  "(butlast (path_parts p) = [] \<and> path_root p \<noteq> [] \<and> path_parent p = path_root p)
   \<or> (\<not> (butlast (path_parts p) = [] \<and> path_root p \<noteq> [])
       \<and> path_parent p \<noteq> [] \<and> last (path_parent p) \<noteq> CHR ''/'')"
proof (cases "butlast (path_parts p) = []")
  case True
  then show ?thesis by (simp add: path_parent_def)
next
  case False
  let ?ps = "butlast (path_parts p)"
  have "last ?ps \<in> set (path_parts p)"
    using False by (meson in_set_butlastD last_in_set)
  then have l: "last ?ps \<noteq> []" "CHR ''/'' \<notin> set (last ?ps)"
    using path_parts_shape by blast+
  have j: "py_join ''/'' ?ps \<noteq> []" "last (py_join ''/'' ?ps) = last (last ?ps)"
    using py_join_last [OF False l(1)] by blast+
  have "last (last ?ps) \<in> set (last ?ps)"
    using l(1) by simp
  then have "last (py_join ''/'' ?ps) \<noteq> CHR ''/''"
    using j(2) l(2) by metis
  then show ?thesis
    using False j(1) by (simp add: path_parent_def)
qed

lemma rstrip_plain:
  "s \<noteq> [] \<Longrightarrow> last s \<noteq> c \<Longrightarrow> rev (dropWhile (\<lambda>x. x = c) (rev (s @ [c]))) = s"
  by (cases s rule: rev_cases) simp_all

lemma os_path_split_pattern:
  "os_path_split (name_pattern f)
     = (if butlast (path_parts f) = [] \<and> path_root f \<noteq> [] then path_root f @ ''/''
        else path_parent f,
        file_base_name f @ ''*'')"
proof -
  let ?par = "path_parent f" and ?b = "file_base_name f @ ''*''"
  have ns: "CHR ''/'' \<notin> set ?b"
    using base_no_slash [of f] by simp
  have np: "name_pattern f = ?par @ CHR ''/'' # ?b"
    by (simp add: name_pattern_def)
  have rf: "rfind CHR ''/'' (name_pattern f) = Some (length ?par)"
    unfolding np using ns by (rule rfind_last)
  have hd: "take (length ?par + 1) (name_pattern f) = ?par @ ''/''"
    "drop (length ?par + 1) (name_pattern f) = ?b"
    unfolding np by simp_all
  show ?thesis
  proof (cases "butlast (path_parts f) = [] \<and> path_root f \<noteq> []")
    case True
    then have "?par = path_root f"
      using path_parent_shape [of f] by auto
    then have "?par = ''/'' \<or> ?par = ''//''"
      using True path_root_cases [of f] by auto
    then show ?thesis
      using True rf hd \<open>?par = path_root f\<close>
      by (auto simp: os_path_split_def Let_def)
  next
    case False
    then have sh: "?par \<noteq> []" "last ?par \<noteq> CHR ''/''"
      using path_parent_shape [of f] by auto
    then have "last ?par \<in> set ?par" by simp
    then have nall: "\<not> list_all (\<lambda>c. c = CHR ''/'') (?par @ ''/'')"
      using sh(2) by (auto simp: list_all_iff)
    have "rev (dropWhile (\<lambda>x. x = CHR ''/'') (rev (?par @ [CHR ''/'']))) = ?par"
      using sh by (rule rstrip_plain)
    then have st: "rev (dropWhile (\<lambda>x. x = CHR ''/'') (rev (?par @ ''/''))) = ?par"
      by simp
    have "os_path_split (name_pattern f) = (?par, ?b)"
      unfolding os_path_split_def Let_def rf option.case hd
      using nall st by (simp del: rev_append)
    then show ?thesis
      using False by auto
  qed
qed

lemma pattern_dir_eq:
  "pattern_dir f
     = (if butlast (path_parts f) = [] \<and> path_root f \<noteq> [] then path_root f @ ''/''
        else path_parent f)"
  by (simp add: pattern_dir_def os_path_split_pattern)

lemma join_pattern_dir:
  "take 1 n \<noteq> ''/'' \<Longrightarrow> os_path_join (pattern_dir f) n = path_parent f @ ''/'' @ n"
  using path_parent_shape [of f] path_root_cases [of f]
  by (auto simp: pattern_dir_eq os_path_join_def)

lemma old_files_eq:
  "old_files fs f
     = remove1 f (map (os_path_join (pattern_dir f))
         (if lists_dir fs (pattern_dir f) then
            filter (\<lambda>n. (ishidden (file_base_name f) \<or> \<not> ishidden n)
               \<and> glob_match (map glob_token_of (file_base_name f) @ [AnyString]) n)
              (map fst (entries fs))
          else []))"
proof -
  have h: "ishidden (file_base_name f @ ''*'') = ishidden (file_base_name f)"
    by (cases "file_base_name f") (simp_all add: ishidden_def)
  show ?thesis
    by (simp add: old_files_def glob_escaped_def os_path_split_pattern pattern_dir_eq glob1_def h)
qed

lemma remove1_map_inj:
  "inj_on g (insert x (set xs)) \<Longrightarrow> remove1 (g x) (map g xs) = map g (remove1 x xs)"
proof (induction xs)
  case Nil
  show ?case by simp
next
  case (Cons a xs)
  have inj: "inj_on g (insert x (set xs))"
    using Cons.prems by (rule inj_on_subset) auto
  have "g a = g x \<longleftrightarrow> a = x"
    using Cons.prems by (auto simp: inj_on_def)
  then show ?case
    using Cons.IH [OF inj] by auto
qed

lemma remove1_distinct: "distinct xs \<Longrightarrow> remove1 x xs = filter (\<lambda>y. y \<noteq> x) xs"
  by (simp add: distinct_remove1_removeAll removeAll_filter_not_eq eq_commute)

lemma os_remove_ok:
  "designates fs f = Some m \<Longrightarrow> map_of (entries fs) m = Some e \<Longrightarrow> removable e \<Longrightarrow>
   os_remove fs f = Inr (fs\<lparr>entries := filter (\<lambda>p. fst p \<noteq> m) (entries fs)\<rparr>)"
  by (simp add: os_remove_def)

lemma os_remove_refused:
  "designates fs f = Some m \<Longrightarrow> map_of (entries fs) m = Some e \<Longrightarrow> \<not> removable e \<Longrightarrow>
   os_remove fs f = Inl IOError"
  by (simp add: os_remove_def)

lemma lookup_Some:
  "lookup fs f = Some e \<Longrightarrow> \<exists>m. designates fs f = Some m \<and> map_of (entries fs) m = Some e"
  by (auto simp: lookup_def split: option.splits)

lemma old_files_listed:
  assumes w: "f = os_path_join (pattern_dir f) (path_name f)"
    and d: "designates fs f = Some (path_name f)"
    and r: "\<forall>n\<in>set (map fst (entries fs)).
              designates fs (os_path_join (pattern_dir f) n) = Some n"
    and dist: "distinct (map fst (entries fs))"
    and ls: "lists_dir fs (pattern_dir f)"
  shows "old_files fs f
       = map (os_path_join (pattern_dir f))
           (filter (\<lambda>n. n \<noteq> path_name f \<and> (ishidden (file_base_name f) \<or> \<not> ishidden n)
               \<and> glob_match (map glob_token_of (file_base_name f) @ [AnyString]) n)
             (map fst (entries fs)))"
    and "f \<notin> set (old_files fs f)"
    and "\<forall>c\<in>set (old_files fs f). designates fs c \<noteq> designates fs f"
proof -
  let ?g = "os_path_join (pattern_dir f)"
  let ?P = "\<lambda>n. (ishidden (file_base_name f) \<or> \<not> ishidden n)
               \<and> glob_match (map glob_token_of (file_base_name f) @ [AnyString]) n"
  let ?ns = "filter ?P (map fst (entries fs))"
  have dg: "designates fs (?g (path_name f)) = Some (path_name f)"
    using d by (simp only: w [symmetric])
  have des: "designates fs (?g x) = Some x" if "x \<in> insert (path_name f) (set ?ns)" for x
  proof (cases "x = path_name f")
    case True
    then show ?thesis using dg by (simp only:)
  next
    case False
    then have "x \<in> set (map fst (entries fs))" using that by simp
    then show ?thesis using r by (rule bspec [rotated])
  qed
  have inj: "inj_on ?g (insert (path_name f) (set ?ns))"
  proof (rule inj_onI)
    fix x y
    assume x: "x \<in> insert (path_name f) (set ?ns)" and y: "y \<in> insert (path_name f) (set ?ns)"
      and e: "?g x = ?g y"
    have dx: "designates fs (?g x) = Some x" using x by (rule des)
    have dy: "designates fs (?g y) = Some y" using y by (rule des)
    have "designates fs (?g x) = designates fs (?g y)"
      using e by (rule arg_cong)
    then have "Some x = Some y"
      using dx dy by (rule box_equals)
    then show "x = y" by (rule option.inject [THEN iffD1])
  qed
  have dn: "distinct ?ns" using dist by simp
  have "old_files fs f = remove1 f (map ?g ?ns)"
    using ls by (simp add: old_files_eq)
  also have "\<dots> = remove1 (?g (path_name f)) (map ?g ?ns)"
    by (simp only: w [symmetric])
  also have "\<dots> = map ?g (remove1 (path_name f) ?ns)"
    using inj by (rule remove1_map_inj)
  also have "\<dots> = map ?g (filter (\<lambda>y. y \<noteq> path_name f) ?ns)"
    using dn by (simp only: remove1_distinct)
  finally have eq: "old_files fs f = map ?g (filter (\<lambda>y. y \<noteq> path_name f) ?ns)" .
  show "old_files fs f
       = map ?g (filter (\<lambda>n. n \<noteq> path_name f \<and> ?P n) (map fst (entries fs)))"
    unfolding eq by (simp add: conj_commute)
  show 3: "\<forall>c\<in>set (old_files fs f). designates fs c \<noteq> designates fs f"
  proof
    fix c assume "c \<in> set (old_files fs f)"
    then obtain n where n: "c = ?g n" "n \<noteq> path_name f" "n \<in> set (map fst (entries fs))"
      unfolding eq by auto
    then have "designates fs c = Some n" using r by auto
    then show "designates fs c \<noteq> designates fs f" using d n(2) by simp
  qed
  then show "f \<notin> set (old_files fs f)" by blast
qed

lemma manage_first_match:
  assumes "lookup fs f = Some e" and "content e = Some bs" and "removable e"
    and "designates fs f = Some m"
    and "old_files fs f = pre @ c # post"
    and "list_all (no_match md5 fs (md5 bs)) pre"
    and "calculate_file_hash md5 fs c = Inr (md5 bs)"
  shows "manage_duplicate_file md5 fs f
       = (c, fs\<lparr>entries := filter (\<lambda>p. fst p \<noteq> m) (entries fs)\<rparr>)"
proof -
  have h: "calculate_file_hash md5 fs f = Inr (md5 bs)"
    using assms(1,2) by (rule hash_readable)
  have me: "map_of (entries fs) m = Some e"
    using assms(1,4) by (simp add: lookup_def)
  have rm: "os_remove fs f = Inr (fs\<lparr>entries := filter (\<lambda>p. fst p \<noteq> m) (entries fs)\<rparr>)"
    using assms(4) me assms(3) by (rule os_remove_ok)
  show ?thesis
    using h assms(5) check_first_match [OF assms(6,7) rm, of post]
    by (simp add: manage_duplicate_file_def)
qed

lemma manage_first_match_kept:
  assumes "lookup fs f = Some e" and "content e = Some bs" and "\<not> removable e"
    and "old_files fs f = pre @ c # post"
    and "list_all (no_match md5 fs (md5 bs)) pre"
    and "calculate_file_hash md5 fs c = Inr (md5 bs)"
  shows "manage_duplicate_file md5 fs f = (f, fs)"
proof -
  have h: "calculate_file_hash md5 fs f = Inr (md5 bs)"
    using assms(1,2) by (rule hash_readable)
  obtain m where m: "designates fs f = Some m" "map_of (entries fs) m = Some e"
    using lookup_Some [OF assms(1)] by blast
  have rm: "os_remove fs f = Inl IOError"
    using m assms(3) by (rule os_remove_refused)
  show ?thesis
    using h assms(4) check_first_match_kept [OF assms(5,6) rm, of post]
    by (simp add: manage_duplicate_file_def)
qed

lemma manage_no_match:
  assumes "lookup fs f = Some e" and "content e = Some bs"
    and "list_all (no_match md5 fs (md5 bs)) (old_files fs f)"
  shows "manage_duplicate_file md5 fs f = (f, fs)"
  using hash_readable [OF assms(1,2), of md5] assms(3)
  by (simp add: manage_duplicate_file_def check_no_match)

lemma manage_unreadable:
  "lookup fs f = None \<or> (\<exists>e. lookup fs f = Some e \<and> content e = None) \<Longrightarrow>
   manage_duplicate_file md5 fs f = (f, fs)"
  by (auto simp: manage_duplicate_file_def calculate_file_hash_def)

lemma base_of_copy:
  assumes ext: "ext \<noteq> []" "CHR ''.'' \<notin> set ext" and nm: "path_name f = name @ ''-copy1.'' @ ext"
  shows "\<exists>t. name = file_base_name f @ t"
proof -
  have st: "stem (path_name f) = name @ ''-copy'' @ ''1''"
    using stem_copy [OF ext, of name] nm by simp
  show ?thesis
    using before_first_prefix [of "''-copy''" name "''1''"] st
    by (auto simp: file_base_name_def)
qed

lemma hidden_of_copy:
  assumes name: "name \<noteq> []" and ext: "ext \<noteq> []" "CHR ''.'' \<notin> set ext"
    and nm: "path_name f = name @ ''-copy1.'' @ ext"
  shows "ishidden (file_base_name f) \<or> \<not> ishidden (name @ s)"
proof -
  have st: "stem (path_name f) = name @ ''-copy'' @ ''1''"
    using stem_copy [OF ext, of name] nm by simp
  obtain c n' where Cons: "name = c # n'" using name by (cases name) auto
  show ?thesis
  proof (cases "c = CHR ''.''")
    case True
    then have "file_base_name f = c # before_first ''-copy'' (n' @ ''-copy'' @ ''1'')"
      using st Cons by (simp add: file_base_name_def)
    then show ?thesis using True by (simp add: ishidden_def)
  next
    case False
    then show ?thesis using Cons by (simp add: ishidden_def)
  qed
qed

lemma two_files:
  assumes name: "name \<noteq> []" and ext: "ext \<noteq> []" "CHR ''.'' \<notin> set ext"
    and new: "new = name @ ''-copy1.'' @ ext" and old: "old = name @ s" and ne: "old \<noteq> new"
    and old_c: "content e_old = Some bs" and new_c: "content e_new = Some bs"
    and rem: "removable e_new"
    and dir: "entries fs = [(old, e_old), (new, e_new)] \<or> entries fs = [(new, e_new), (old, e_old)]"
    and pn: "path_name f = new"
    and w: "f = os_path_join (pattern_dir f) new"
    and dn: "designates fs f = Some new"
    and dol: "designates fs (os_path_join (pattern_dir f) old) = Some old"
    and ls: "lists_dir fs (pattern_dir f)"
  shows "manage_duplicate_file md5 fs f
       = (os_path_join (pattern_dir f) old, fs\<lparr>entries := [(old, e_old)]\<rparr>)"
proof -
  let ?g = "os_path_join (pattern_dir f)"
  have pn': "path_name f = name @ ''-copy1.'' @ ext" using pn new by simp
  obtain t where t: "name = file_base_name f @ t"
    using base_of_copy [OF ext pn'] by blast
  have "old = file_base_name f @ (t @ s)"
    using t old by simp
  then have gm: "glob_match (map glob_token_of (file_base_name f) @ [AnyString]) old"
    using glob_prefix_match [of "file_base_name f" "t @ s"] by simp
  have hid: "ishidden (file_base_name f) \<or> \<not> ishidden old"
    using hidden_of_copy [OF name ext pn', of s] old by simp
  have names: "map fst (entries fs) = [old, new] \<or> map fst (entries fs) = [new, old]"
    using dir by auto
  have r: "\<forall>n\<in>set (map fst (entries fs)). designates fs (?g n) = Some n"
    using names dol dn w by auto
  have dist: "distinct (map fst (entries fs))"
    using names ne by auto
  have olds: "old_files fs f = [] @ ?g old # []"
    using old_files_listed(1) [of f fs] w dn r dist ls pn names gm hid ne by auto
  have lk: "lookup fs f = Some e_new"
    using dn dir ne by (auto simp: lookup_def)
  have lo: "lookup fs (?g old) = Some e_old"
    using dol dir ne by (auto simp: lookup_def)
  have h_old: "calculate_file_hash md5 fs (?g old) = Inr (md5 bs)"
    using lo old_c by (rule hash_readable)
  have "manage_duplicate_file md5 fs f
      = (?g old, fs\<lparr>entries := filter (\<lambda>p. fst p \<noteq> new) (entries fs)\<rparr>)"
    using lk new_c rem dn olds _ h_old by (rule manage_first_match) simp
  moreover have "filter (\<lambda>p. fst p \<noteq> new) (entries fs) = [(old, e_old)]"
    using dir ne by auto
  ultimately show ?thesis by simp
qed

text \<open>
  Claim C8, amended. The claim is about a path written the way \<^verbatim>\<open>glob\<close> writes the
  entries of the directory (the parent as \<^verbatim>\<open>pathlib\<close> gives it, a slash, the name),
  in a directory whose entries have different names, each designated by the path that
  \<^verbatim>\<open>glob\<close> writes for it. For every such just-written file that can be read, reconciliation hashes the
  file in chunks of at most 4096 bytes, which gives the digest of its bytes. The candidates
  are the other entries of the same directory whose names match the glob pattern made of
  the base name and a star, each written like the path; the base name is the stem of the
  name cut at its first occurrence of \<^verbatim>\<open>-copy\<close> (not only at a \<^verbatim>\<open>-copy{N}\<close> suffix), and
  the whole stem when \<^verbatim>\<open>-copy\<close> does not occur; for a base name without wildcard
  characters the matching names are those that begin with the base name. On the first
  candidate whose digest equals the digest of the new file, the new file is removed and the
  path of that candidate is returned (the original path, with nothing removed, when the
  removal fails); candidates before it that cannot be read or have another digest are
  passed over. If no candidate matches, or the new file cannot be read, the original path
  is returned and nothing is removed. In particular, when a directory holds just two files
  with the same bytes, one whose name begins with \<open>name\<close> (such as \<open>name\<close> itself or
  \<open>name.ext\<close>) and the new file \<open>name-copy1.ext\<close>, the new file is removed and the other
  file, the only one left, is the path returned.
\<close>

theorem reconcile_law:
  "(lookup fs f = Some e \<and> content e = Some bs \<longrightarrow>
      calculate_file_hash md5 fs f = Inr (md5 bs)
      \<and> concat (read_chunks 4096 bs) = bs
      \<and> list_all (\<lambda>c. c \<noteq> [] \<and> length c \<le> 4096) (read_chunks 4096 bs))
   \<and> (lookup fs f = None \<or> (\<exists>e'. lookup fs f = Some e' \<and> content e' = None) \<longrightarrow>
        manage_duplicate_file md5 fs f = (f, fs))
   \<and> old_files fs f
        = remove1 f (map (os_path_join (pattern_dir f))
            (if lists_dir fs (pattern_dir f) then
               filter (\<lambda>n. (ishidden (file_base_name f) \<or> \<not> ishidden n)
                  \<and> glob_match (map glob_token_of (file_base_name f) @ [AnyString]) n)
                 (map fst (entries fs))
             else []))
   \<and> pattern_dir f
        = (if butlast (path_parts f) = [] \<and> path_root f \<noteq> [] then path_root f @ ''/''
           else path_parent f)
   \<and> (take 1 n \<noteq> ''/'' \<longrightarrow> os_path_join (pattern_dir f) n = path_parent f @ ''/'' @ n)
   \<and> ((\<forall>c\<in>set (file_base_name f). c \<noteq> CHR ''*'' \<and> c \<noteq> CHR ''?'') \<longrightarrow>
         glob_match (map glob_token_of (file_base_name f) @ [AnyString]) n
           = (take (length (file_base_name f)) n = file_base_name f))
   \<and> ((\<forall>j. take 5 (drop j (stem (path_name f))) \<noteq> ''-copy'') \<longrightarrow>
         file_base_name f = stem (path_name f))
   \<and> ((\<forall>j<i. take 5 (drop j (stem (path_name f))) \<noteq> ''-copy'')
         \<and> take 5 (drop i (stem (path_name f))) = ''-copy'' \<longrightarrow>
         file_base_name f = take i (stem (path_name f)))
   \<and> (b \<noteq> [] \<and> x \<noteq> [] \<and> CHR ''.'' \<notin> set x \<longrightarrow> stem (b @ ''.'' @ x) = b)
   \<and> (CHR ''.'' \<notin> set x \<longrightarrow> stem x = x \<and> stem (''.'' @ x) = ''.'' @ x)
   \<and> stem (b @ ''.'') = b @ ''.''
   \<and> (f = os_path_join (pattern_dir f) (path_name f)
        \<and> designates fs f = Some (path_name f)
        \<and> (\<forall>n\<in>set (map fst (entries fs)).
              designates fs (os_path_join (pattern_dir f) n) = Some n)
        \<and> distinct (map fst (entries fs))
        \<and> lists_dir fs (pattern_dir f) \<longrightarrow>
       old_files fs f
         = map (os_path_join (pattern_dir f))
             (filter (\<lambda>n. n \<noteq> path_name f \<and> (ishidden (file_base_name f) \<or> \<not> ishidden n)
                \<and> glob_match (map glob_token_of (file_base_name f) @ [AnyString]) n)
               (map fst (entries fs)))
       \<and> f \<notin> set (old_files fs f)
       \<and> (\<forall>c\<in>set (old_files fs f). designates fs c \<noteq> designates fs f))
   \<and> (lookup fs f = Some e \<and> content e = Some bs \<and> removable e
        \<and> designates fs f = Some m
        \<and> old_files fs f = pre @ c # post \<and> list_all (no_match md5 fs (md5 bs)) pre
        \<and> calculate_file_hash md5 fs c = Inr (md5 bs) \<longrightarrow>
       manage_duplicate_file md5 fs f
         = (c, fs\<lparr>entries := filter (\<lambda>p. fst p \<noteq> m) (entries fs)\<rparr>))
   \<and> (lookup fs f = Some e \<and> content e = Some bs \<and> \<not> removable e
        \<and> old_files fs f = pre @ c # post \<and> list_all (no_match md5 fs (md5 bs)) pre
        \<and> calculate_file_hash md5 fs c = Inr (md5 bs) \<longrightarrow>
       manage_duplicate_file md5 fs f = (f, fs))
   \<and> (lookup fs f = Some e \<and> content e = Some bs
        \<and> list_all (no_match md5 fs (md5 bs)) (old_files fs f) \<longrightarrow>
       manage_duplicate_file md5 fs f = (f, fs))
   \<and> (name \<noteq> [] \<and> ext \<noteq> [] \<and> CHR ''.'' \<notin> set ext \<and> new = name @ ''-copy1.'' @ ext
        \<and> old = name @ s \<and> old \<noteq> new
        \<and> content e_old = Some bs \<and> content e_new = Some bs \<and> removable e_new
        \<and> (entries gs = [(old, e_old), (new, e_new)] \<or> entries gs = [(new, e_new), (old, e_old)])
        \<and> path_name g = new \<and> g = os_path_join (pattern_dir g) new
        \<and> designates gs g = Some new
        \<and> designates gs (os_path_join (pattern_dir g) old) = Some old
        \<and> lists_dir gs (pattern_dir g) \<longrightarrow>
       manage_duplicate_file md5 gs g
         = (os_path_join (pattern_dir g) old, gs\<lparr>entries := [(old, e_old)]\<rparr>))"
proof -
  have c1: "lookup fs f = Some e \<and> content e = Some bs \<longrightarrow>
      calculate_file_hash md5 fs f = Inr (md5 bs)
      \<and> concat (read_chunks 4096 bs) = bs
      \<and> list_all (\<lambda>c. c \<noteq> [] \<and> length c \<le> 4096) (read_chunks 4096 bs)"
    using read_chunks_sizes [of 4096 bs] by (simp add: hash_readable concat_read_chunks)
  have c2: "lookup fs f = None \<or> (\<exists>e'. lookup fs f = Some e' \<and> content e' = None) \<longrightarrow>
        manage_duplicate_file md5 fs f = (f, fs)"
    using manage_unreadable [of fs f md5] by blast
  have len: "(5::nat) = length ''-copy''"
    by simp
  have c6: "(\<forall>c\<in>set (file_base_name f). c \<noteq> CHR ''*'' \<and> c \<noteq> CHR ''?'') \<longrightarrow>
         glob_match (map glob_token_of (file_base_name f) @ [AnyString]) n
           = (take (length (file_base_name f)) n = file_base_name f)"
    using glob_plain_prefix [of "file_base_name f" n] by blast
  have c7: "(\<forall>j. take 5 (drop j (stem (path_name f))) \<noteq> ''-copy'') \<longrightarrow>
         file_base_name f = stem (path_name f)"
    unfolding file_base_name_def len
    using before_first_none [of "''-copy''" "stem (path_name f)"] by blast
  have c8: "(\<forall>j<i. take 5 (drop j (stem (path_name f))) \<noteq> ''-copy'')
         \<and> take 5 (drop i (stem (path_name f))) = ''-copy'' \<longrightarrow>
         file_base_name f = take i (stem (path_name f))"
    unfolding file_base_name_def len
    using before_first_at [of i "''-copy''" "stem (path_name f)"] by blast
  have c9: "b \<noteq> [] \<and> x \<noteq> [] \<and> CHR ''.'' \<notin> set x \<longrightarrow> stem (b @ ''.'' @ x) = b"
    using stem_suffix [of b x] by blast
  have c10: "CHR ''.'' \<notin> set x \<longrightarrow> stem x = x \<and> stem (''.'' @ x) = ''.'' @ x"
    using stem_no_dot [of x] stem_leading_dot [of x] by blast
  have c12: "f = os_path_join (pattern_dir f) (path_name f)
        \<and> designates fs f = Some (path_name f)
        \<and> (\<forall>n\<in>set (map fst (entries fs)).
              designates fs (os_path_join (pattern_dir f) n) = Some n)
        \<and> distinct (map fst (entries fs))
        \<and> lists_dir fs (pattern_dir f) \<longrightarrow>
       old_files fs f
         = map (os_path_join (pattern_dir f))
             (filter (\<lambda>n. n \<noteq> path_name f \<and> (ishidden (file_base_name f) \<or> \<not> ishidden n)
                \<and> glob_match (map glob_token_of (file_base_name f) @ [AnyString]) n)
               (map fst (entries fs)))
       \<and> f \<notin> set (old_files fs f)
       \<and> (\<forall>c\<in>set (old_files fs f). designates fs c \<noteq> designates fs f)"
    using old_files_listed [of f fs] by blast
  have c13: "lookup fs f = Some e \<and> content e = Some bs \<and> removable e
        \<and> designates fs f = Some m
        \<and> old_files fs f = pre @ c # post \<and> list_all (no_match md5 fs (md5 bs)) pre
        \<and> calculate_file_hash md5 fs c = Inr (md5 bs) \<longrightarrow>
       manage_duplicate_file md5 fs f
         = (c, fs\<lparr>entries := filter (\<lambda>p. fst p \<noteq> m) (entries fs)\<rparr>)"
    using manage_first_match [of fs f e bs m pre c post md5] by blast
  have c14: "lookup fs f = Some e \<and> content e = Some bs \<and> \<not> removable e
        \<and> old_files fs f = pre @ c # post \<and> list_all (no_match md5 fs (md5 bs)) pre
        \<and> calculate_file_hash md5 fs c = Inr (md5 bs) \<longrightarrow>
       manage_duplicate_file md5 fs f = (f, fs)"
    using manage_first_match_kept [of fs f e bs pre c post md5] by blast
  have c15: "lookup fs f = Some e \<and> content e = Some bs
        \<and> list_all (no_match md5 fs (md5 bs)) (old_files fs f) \<longrightarrow>
       manage_duplicate_file md5 fs f = (f, fs)"
    using manage_no_match [of fs f e bs md5] by blast
  have c16: "name \<noteq> [] \<and> ext \<noteq> [] \<and> CHR ''.'' \<notin> set ext \<and> new = name @ ''-copy1.'' @ ext
        \<and> old = name @ s \<and> old \<noteq> new
        \<and> content e_old = Some bs \<and> content e_new = Some bs \<and> removable e_new
        \<and> (entries gs = [(old, e_old), (new, e_new)] \<or> entries gs = [(new, e_new), (old, e_old)])
        \<and> path_name g = new \<and> g = os_path_join (pattern_dir g) new
        \<and> designates gs g = Some new
        \<and> designates gs (os_path_join (pattern_dir g) old) = Some old
        \<and> lists_dir gs (pattern_dir g) \<longrightarrow>
       manage_duplicate_file md5 gs g
         = (os_path_join (pattern_dir g) old, gs\<lparr>entries := [(old, e_old)]\<rparr>)"
    using two_files [of name ext new old s e_old bs e_new gs g md5] by blast
  have c5: "take 1 n \<noteq> ''/'' \<longrightarrow> os_path_join (pattern_dir f) n = path_parent f @ ''/'' @ n"
    using join_pattern_dir [of n f] by blast
  show ?thesis
    by (intro conjI c1 c2 old_files_eq pattern_dir_eq c5 c6 c7 c8 c9 c10 stem_trailing_dot
        c12 c13 c14 c15 c16)
qed

theorem reconcile_law_witness:
  "''/data/photo/report-copy2.pdf''
      = os_path_join (pattern_dir ''/data/photo/report-copy2.pdf'')
          (path_name ''/data/photo/report-copy2.pdf'')
   \<and> old_files
        (plain_fs ''/data/photo''
          [(''notes.txt'', readable_file [7]),
           (''report.pdf'', \<lparr>content = None, removable = False\<rparr>),
           (''report-copy1.pdf'', readable_file [1, 2, 3]),
           (''report-copy2.pdf'', readable_file [1, 2, 3])])
        ''/data/photo/report-copy2.pdf''
      = [''/data/photo/report.pdf'', ''/data/photo/report-copy1.pdf'']
   \<and> manage_duplicate_file toy_digest
        (plain_fs ''/data/photo''
          [(''notes.txt'', readable_file [7]),
           (''report.pdf'', \<lparr>content = None, removable = False\<rparr>),
           (''report-copy1.pdf'', readable_file [1, 2, 3]),
           (''report-copy2.pdf'', readable_file [1, 2, 3])])
        ''/data/photo/report-copy2.pdf''
      = (''/data/photo/report-copy1.pdf'',
         (plain_fs ''/data/photo''
           [(''notes.txt'', readable_file [7]),
            (''report.pdf'', \<lparr>content = None, removable = False\<rparr>),
            (''report-copy1.pdf'', readable_file [1, 2, 3]),
            (''report-copy2.pdf'', readable_file [1, 2, 3])])
         \<lparr>entries :=
            [(''notes.txt'', readable_file [7]),
             (''report.pdf'', \<lparr>content = None, removable = False\<rparr>),
             (''report-copy1.pdf'', readable_file [1, 2, 3])]\<rparr>)
   \<and> manage_duplicate_file toy_digest
        (plain_fs ''/data/photo''
          [(''report.pdf'', readable_file [1, 2, 4]),
           (''report-copy1.pdf'', readable_file [1, 2, 3])])
        ''/data/photo/report-copy1.pdf''
      = (''/data/photo/report-copy1.pdf'',
         plain_fs ''/data/photo''
          [(''report.pdf'', readable_file [1, 2, 4]),
           (''report-copy1.pdf'', readable_file [1, 2, 3])])
   \<and> manage_duplicate_file toy_digest
        (plain_fs ''dl''
          [(''name'', readable_file [5, 6]), (''name-copy1.ext'', readable_file [5, 6])])
        ''dl/name-copy1.ext''
      = (''dl/name'',
         (plain_fs ''dl''
           [(''name'', readable_file [5, 6]), (''name-copy1.ext'', readable_file [5, 6])])
         \<lparr>entries := [(''name'', readable_file [5, 6])]\<rparr>)
   \<and> file_base_name ''/data/photo/report-copy1.pdf'' = ''report''
   \<and> file_base_name ''/data/photo/a-copyright.txt'' = ''a''
   \<and> file_base_name ''/data/photo/holiday.tar.gz'' = ''holiday.tar''
   \<and> glob_match (map glob_token_of (file_base_name ''/data/photo/report-copy1.pdf'')
        @ [AnyString]) ''reports.pdf''
   \<and> \<not> glob_match (map glob_token_of (file_base_name ''/data/photo/report-copy1.pdf'')
        @ [AnyString]) ''notes.txt''"
proof -
  let ?p1 = "''/data/photo/report-copy2.pdf''" and ?p2 = "''/data/photo/report-copy1.pdf''"
    and ?p3 = "''dl/name-copy1.ext''"
  let ?e1 = "[(''notes.txt'', readable_file [7]),
           (''report.pdf'', \<lparr>content = None, removable = False\<rparr>),
           (''report-copy1.pdf'', readable_file [1, 2, 3]),
           (''report-copy2.pdf'', readable_file [1, 2, 3])]"
  let ?e2 = "[(''report.pdf'', readable_file [1, 2, 4]),
           (''report-copy1.pdf'', readable_file [1, 2, 3])]"
  let ?e3 = "[(''name'', readable_file [5, 6]), (''name-copy1.ext'', readable_file [5, 6])]"
  let ?F1 = "plain_fs ''/data/photo'' ?e1" and ?F2 = "plain_fs ''/data/photo'' ?e2"
    and ?F3 = "plain_fs ''dl'' ?e3"
  have w1: "?p1 = os_path_join (pattern_dir ?p1) (path_name ?p1)"
    by code_simp
  have d1: "designates ?F1 ?p1 = Some (path_name ?p1)"
    "designates ?F1 ?p1 = Some ''report-copy2.pdf''"
    by code_simp+
  have r1: "\<forall>n\<in>set (map fst (entries ?F1)).
      designates ?F1 (os_path_join (pattern_dir ?p1) n) = Some n"
    by code_simp
  have s1: "distinct (map fst (entries ?F1))" "lists_dir ?F1 (pattern_dir ?p1)"
    by code_simp+
  have o1: "old_files ?F1 ?p1 = [''/data/photo/report.pdf''] @ ''/data/photo/report-copy1.pdf'' # []"
    by code_simp
  have l1: "lookup ?F1 ?p1 = Some (readable_file [1, 2, 3])"
    "content (readable_file [1, 2, 3]) = Some [1, 2, 3]" "removable (readable_file [1, 2, 3])"
    by code_simp+
  have n1: "list_all (no_match toy_digest ?F1 (toy_digest [1, 2, 3])) [''/data/photo/report.pdf'']"
    by code_simp
  have h1: "calculate_file_hash toy_digest ?F1 ''/data/photo/report-copy1.pdf''
      = Inr (toy_digest [1, 2, 3])"
    by code_simp
  have f1: "filter (\<lambda>p. fst p \<noteq> ''report-copy2.pdf'') (entries ?F1)
      = [(''notes.txt'', readable_file [7]),
         (''report.pdf'', \<lparr>content = None, removable = False\<rparr>),
         (''report-copy1.pdf'', readable_file [1, 2, 3])]"
    by code_simp
  note law1 = reconcile_law [where fs = ?F1 and f = ?p1 and e = "readable_file [1, 2, 3]"
      and bs = "[1, 2, 3]" and ?md5.0 = toy_digest and m = "''report-copy2.pdf''"
      and pre = "[''/data/photo/report.pdf'']" and c = "''/data/photo/report-copy1.pdf''"
      and post = "[]"]
  have m1: "manage_duplicate_file toy_digest ?F1 ?p1
      = (''/data/photo/report-copy1.pdf'',
         ?F1\<lparr>entries := filter (\<lambda>p. fst p \<noteq> ''report-copy2.pdf'') (entries ?F1)\<rparr>)"
    using law1 [THEN conjunct2, THEN conjunct2, THEN conjunct2, THEN conjunct2, THEN conjunct2, THEN conjunct2, THEN conjunct2, THEN conjunct2, THEN conjunct2, THEN conjunct2, THEN conjunct2, THEN conjunct2, THEN conjunct1] l1 d1(2) o1 n1 h1 by blast
  have lst: "old_files ?F1 ?p1
      = map (os_path_join (pattern_dir ?p1))
             (filter (\<lambda>n. n \<noteq> path_name ?p1
                \<and> (ishidden (file_base_name ?p1) \<or> \<not> ishidden n)
                \<and> glob_match (map glob_token_of (file_base_name ?p1) @ [AnyString]) n)
               (map fst (entries ?F1)))"
    using law1 [THEN conjunct2, THEN conjunct2, THEN conjunct2, THEN conjunct2, THEN conjunct2, THEN conjunct2, THEN conjunct2, THEN conjunct2, THEN conjunct2, THEN conjunct2, THEN conjunct2, THEN conjunct1] w1 d1(1) r1 s1 by blast
  have l2: "lookup ?F2 ?p2 = Some (readable_file [1, 2, 3])"
    by code_simp
  have n2: "list_all (no_match toy_digest ?F2 (toy_digest [1, 2, 3])) (old_files ?F2 ?p2)"
    by code_simp
  have m2: "manage_duplicate_file toy_digest ?F2 ?p2 = (?p2, ?F2)"
    using reconcile_law [where fs = ?F2 and f = ?p2 and e = "readable_file [1, 2, 3]"
        and bs = "[1, 2, 3]" and ?md5.0 = toy_digest, THEN conjunct2, THEN conjunct2, THEN conjunct2, THEN conjunct2, THEN conjunct2, THEN conjunct2, THEN conjunct2, THEN conjunct2, THEN conjunct2, THEN conjunct2, THEN conjunct2, THEN conjunct2, THEN conjunct2, THEN conjunct2, THEN conjunct1]
      l2 l1(2) n2
    by blast
  have b: "file_base_name ?p2 = ''report''"
    "file_base_name ''/data/photo/a-copyright.txt'' = ''a''"
    "file_base_name ''/data/photo/holiday.tar.gz'' = ''holiday.tar''"
    by code_simp+
  have wild: "\<forall>c\<in>set (file_base_name ?p2). c \<noteq> CHR ''*'' \<and> c \<noteq> CHR ''?''"
    by code_simp
  have g: "glob_match (map glob_token_of (file_base_name ?p2) @ [AnyString]) ''reports.pdf''"
    "\<not> glob_match (map glob_token_of (file_base_name ?p2) @ [AnyString]) ''notes.txt''"
    using reconcile_law [where f = ?p2 and n = "''reports.pdf''", THEN conjunct2, THEN conjunct2, THEN conjunct2, THEN conjunct2, THEN conjunct2, THEN conjunct1]
      reconcile_law [where f = ?p2 and n = "''notes.txt''", THEN conjunct2, THEN conjunct2, THEN conjunct2, THEN conjunct2, THEN conjunct2, THEN conjunct1] wild
    by (simp_all add: b)
  have h3: "''name'' \<noteq> []" "''ext'' \<noteq> []" "CHR ''.'' \<notin> set ''ext''"
    "''name-copy1.ext'' = ''name'' @ ''-copy1.'' @ ''ext''" "''name'' = ''name'' @ []"
    "''name'' \<noteq> ''name-copy1.ext''"
    "content (readable_file [5, 6]) = Some [5, 6]" "removable (readable_file [5, 6])"
    "entries ?F3 = [(''name'', readable_file [5, 6]), (''name-copy1.ext'', readable_file [5, 6])]"
    "path_name ?p3 = ''name-copy1.ext''"
    "?p3 = os_path_join (pattern_dir ?p3) ''name-copy1.ext''"
    "designates ?F3 ?p3 = Some ''name-copy1.ext''"
    "designates ?F3 (os_path_join (pattern_dir ?p3) ''name'') = Some ''name''"
    "lists_dir ?F3 (pattern_dir ?p3)"
    "os_path_join (pattern_dir ?p3) ''name'' = ''dl/name''"
    by code_simp+
  have m3: "manage_duplicate_file toy_digest ?F3 ?p3
      = (os_path_join (pattern_dir ?p3) ''name'', ?F3\<lparr>entries := [(''name'', readable_file [5, 6])]\<rparr>)"
    using reconcile_law [where name = "''name''" and ext = "''ext''" and new = "''name-copy1.ext''"
        and old = "''name''" and s = "[]" and e_old = "readable_file [5, 6]"
        and e_new = "readable_file [5, 6]" and bs = "[5, 6]" and gs = ?F3 and g = ?p3
        and ?md5.0 = toy_digest, THEN conjunct2, THEN conjunct2, THEN conjunct2, THEN conjunct2, THEN conjunct2, THEN conjunct2, THEN conjunct2, THEN conjunct2, THEN conjunct2, THEN conjunct2, THEN conjunct2, THEN conjunct2, THEN conjunct2, THEN conjunct2, THEN conjunct2] h3(1-14)
    by blast
  have o1': "old_files ?F1 ?p1 = [''/data/photo/report.pdf'', ''/data/photo/report-copy1.pdf'']"
    using o1 by (simp only: append.simps)
  have m1': "manage_duplicate_file toy_digest ?F1 ?p1
      = (''/data/photo/report-copy1.pdf'',
         ?F1\<lparr>entries :=
            [(''notes.txt'', readable_file [7]),
             (''report.pdf'', \<lparr>content = None, removable = False\<rparr>),
             (''report-copy1.pdf'', readable_file [1, 2, 3])]\<rparr>)"
    using m1 by (simp only: f1)
  have m3': "manage_duplicate_file toy_digest ?F3 ?p3
      = (''dl/name'', ?F3\<lparr>entries := [(''name'', readable_file [5, 6])]\<rparr>)"
    using m3 by (simp only: h3(15))
  show ?thesis
    by (intro conjI w1 o1' m1' m2 m3' b g)
qed

text \<open>
  Claim C8, as stated, fails where the stem holds \<^verbatim>\<open>-copy\<close> without a number after it,
  or where another file merely begins with the base name. The stem of
  \<^verbatim>\<open>a-copyright.txt\<close> has no \<^verbatim>\<open>-copy{N}\<close> suffix, yet the base name becomes \<^verbatim>\<open>a\<close>,
  the file \<^verbatim>\<open>ab.txt\<close> with the same bytes is a candidate, the new file is removed and
  \<^verbatim>\<open>ab.txt\<close> is returned.
\<close>

theorem reconcile_foreign_stem_counterexample:
  "fst (manage_duplicate_file toy_digest
      (plain_fs ''/data/photo''
        [(''ab.txt'', readable_file [1, 2, 3]), (''a-copyright.txt'', readable_file [1, 2, 3])])
      ''/data/photo/a-copyright.txt'') = ''/data/photo/ab.txt''
   \<and> entries (snd (manage_duplicate_file toy_digest
      (plain_fs ''/data/photo''
        [(''ab.txt'', readable_file [1, 2, 3]), (''a-copyright.txt'', readable_file [1, 2, 3])])
      ''/data/photo/a-copyright.txt'')) = [(''ab.txt'', readable_file [1, 2, 3])]
   \<and> stem (path_name ''/data/photo/a-copyright.txt'') = ''a-copyright''
   \<and> stem (path_name ''/data/photo/ab.txt'') = ''ab''"
  by code_simp

text \<open>
  A path that is not written the way \<^verbatim>\<open>glob\<close> writes it is outside the statement
  above. The comparison that takes the new file out of the candidates is a comparison of
  strings, so with a doubled slash, or with a bare file name, the new file is its own
  candidate: its digest matches, it is removed, and the path returned is the one
  \<^verbatim>\<open>glob\<close> wrote, which now designates nothing.
\<close>

lemma reconcile_other_spelling:
  "fst (manage_duplicate_file toy_digest
      (plain_fs ''/data/photo'' [(''x.txt'', readable_file [1, 2, 3])])
      ''/data/photo//x.txt'') = ''/data/photo/x.txt''
   \<and> entries (snd (manage_duplicate_file toy_digest
      (plain_fs ''/data/photo'' [(''x.txt'', readable_file [1, 2, 3])])
      ''/data/photo//x.txt'')) = []
   \<and> fst (manage_duplicate_file toy_digest
      (plain_fs ''.'' [(''x.txt'', readable_file [1, 2, 3])]) ''x.txt'') = ''./x.txt''
   \<and> entries (snd (manage_duplicate_file toy_digest
      (plain_fs ''.'' [(''x.txt'', readable_file [1, 2, 3])]) ''x.txt'')) = []
   \<and> fst (manage_duplicate_file toy_digest
      (plain_fs ''/data/photo'' [(''x.txt'', readable_file [1, 2, 3])])
      ''/data/photo/x.txt'') = ''/data/photo/x.txt''
   \<and> entries (snd (manage_duplicate_file toy_digest
      (plain_fs ''/data/photo'' [(''x.txt'', readable_file [1, 2, 3])])
      ''/data/photo/x.txt'')) = [(''x.txt'', readable_file [1, 2, 3])]"
  by code_simp

end
